(* ===== verification/Prelude.thy ===== *)
theory Prelude
  imports Main "HOL-Library.AList"
begin

text \<open>
  Shared vocabulary of the DNS-resolution development.
  \<^item> The Python exceptions the modelled code can raise, as the datatype \<open>py_error\<close>.
  \<^item> A result type \<open>'a outcome\<close> for statements that either return, raise, or block
    forever on a socket (\<open>Hang\<close>: a \<^verbatim>\<open>recvfrom\<close> that is never answered), and a
    state-passing program type \<open>('s, 'a) prog\<close> with its return, raise and bind,
    so that a Python function body is a chain of \<open>bind_prog\<close>s in source order.
  \<^item> The Python string operations the sources use, on \<open>string\<close> (\<open>char list\<close>,
    a character being a code point below 256): \<^verbatim>\<open>str.split(sep)\<close> with a one-character
    separator (\<open>py_split\<close>), \<^verbatim>\<open>sep.join(xs)\<close> (\<open>py_join\<close>),
    \<^verbatim>\<open>str.strip(chars)\<close> / \<^verbatim>\<open>str.strip()\<close> (\<open>py_strip\<close> with a character
    predicate, \<open>py_isspace\<close> for the argument-less form), and list indexing
    \<^verbatim>\<open>xs[i]\<close> with its IndexError (\<open>py_nth\<close>). \<^verbatim>\<open>str.replace(c, "")\<close> is the
    library's \<open>removeAll\<close>, and \<^verbatim>\<open>s[:-1]\<close> is \<open>butlast\<close>.
  The lemmas on them are collected in \<open>py_simps\<close> (split/join round trips, the
  behaviour of \<open>py_split\<close> on a concatenation) and \<open>prog_simps\<close> (the monad laws
  the component proofs unfold with).
\<close>

named_theorems py_simps "rewrite rules for the Python string and list operations"
named_theorems prog_simps "rewrite rules for the state-passing program combinators"

type_synonym address = string
type_synonym domain = string

section \<open>Exceptions and outcomes\<close>

datatype py_error =
    IndexError   \<comment> \<open>\<^verbatim>\<open>xs[i]\<close> out of range\<close>
  | ValueError   \<comment> \<open>\<^verbatim>\<open>a, b, *_ = xs\<close> with fewer than two elements\<close>
  | DnsError     \<comment> \<open>an exception raised inside dnspython (query failure, bad name)\<close>
  | AttributeError \<comment> \<open>\<^verbatim>\<open>None.encode()\<close>, after \<^verbatim>\<open>dict.get\<close> of a missing key\<close>
  | OSError      \<comment> \<open>\<^verbatim>\<open>sendto\<close> of a datagram too long for UDP\<close>

datatype 'a outcome = Ok 'a | Raised py_error | Hang

type_synonym ('s, 'a) prog = "'s \<Rightarrow> 'a outcome \<times> 's"

definition ret :: "'a \<Rightarrow> ('s, 'a) prog" where
  "ret x s = (Ok x, s)"

definition raise_prog :: "py_error \<Rightarrow> ('s, 'a) prog" where
  "raise_prog e s = (Raised e, s)"

definition bind_prog :: "('s, 'a) prog \<Rightarrow> ('a \<Rightarrow> ('s, 'b) prog) \<Rightarrow> ('s, 'b) prog" where
  "bind_prog m f s =
     (case m s of
        (Ok x, s') \<Rightarrow> f x s'
      | (Raised e, s') \<Rightarrow> (Raised e, s')
      | (Hang, s') \<Rightarrow> (Hang, s'))"

text \<open>A Python expression that may raise, lifted into a program that leaves the state alone.\<close>

definition lift_sum :: "py_error + 'a \<Rightarrow> ('s, 'a) prog" where
  "lift_sum r = (case r of Inl e \<Rightarrow> raise_prog e | Inr x \<Rightarrow> ret x)"

text \<open>Sequencing of Python expressions that may raise, without state.\<close>

definition bind_sum :: "'e + 'a \<Rightarrow> ('a \<Rightarrow> 'e + 'b) \<Rightarrow> 'e + 'b" where
  "bind_sum r f = (case r of Inl e \<Rightarrow> Inl e | Inr x \<Rightarrow> f x)"

section \<open>Python strings and lists\<close>

fun py_split :: "char \<Rightarrow> string \<Rightarrow> string list" where
  "py_split c [] = [[]]"
| "py_split c (x # xs) =
     (if x = c then [] # py_split c xs
      else (let r = py_split c xs in (x # hd r) # tl r))"

fun py_join :: "string \<Rightarrow> string list \<Rightarrow> string" where
  "py_join sep [] = []"
| "py_join sep [x] = x"
| "py_join sep (x # y # ys) = x @ sep @ py_join sep (y # ys)"

definition py_strip :: "(char \<Rightarrow> bool) \<Rightarrow> string \<Rightarrow> string" where
  "py_strip P s = rev (dropWhile P (rev (dropWhile P s)))"

text \<open>\<^verbatim>\<open>str.isspace\<close> on the code points below 256.\<close>

definition py_isspace :: "char \<Rightarrow> bool" where
  "py_isspace c =
     (let n = (of_char c :: nat)
      in (9 \<le> n \<and> n \<le> 13) \<or> (28 \<le> n \<and> n \<le> 32) \<or> n = 133 \<or> n = 160)"

definition py_nth :: "'a list \<Rightarrow> nat \<Rightarrow> py_error + 'a" where
  "py_nth xs i = (if i < length xs then Inr (xs ! i) else Inl IndexError)"

section \<open>Lemmas on the program combinators\<close>

lemma bind_prog_ret [prog_simps, simp]: "bind_prog (ret x) f = f x"
  by (rule ext) (simp add: bind_prog_def ret_def)

lemma bind_prog_raise [prog_simps, simp]: "bind_prog (raise_prog e) f = raise_prog e"
  by (rule ext) (simp add: bind_prog_def raise_prog_def)

lemma bind_prog_apply [prog_simps]:
  "bind_prog m f s =
     (case m s of (Ok x, s') \<Rightarrow> f x s' | (Raised e, s') \<Rightarrow> (Raised e, s') | (Hang, s') \<Rightarrow> (Hang, s'))"
  by (simp add: bind_prog_def)

lemma bind_prog_Ok [prog_simps]: "m s = (Ok x, s') \<Longrightarrow> bind_prog m f s = f x s'"
  by (simp add: bind_prog_def)

lemma bind_prog_Hang [prog_simps]: "m s = (Hang, s') \<Longrightarrow> bind_prog m f s = (Hang, s')"
  by (simp add: bind_prog_def)

lemma bind_prog_Raised [prog_simps]: "m s = (Raised e, s') \<Longrightarrow> bind_prog m f s = (Raised e, s')"
  by (simp add: bind_prog_def)

lemma lift_sum_Inr [prog_simps, simp]: "lift_sum (Inr x) = ret x"
  by (simp add: lift_sum_def)

lemma lift_sum_Inl [prog_simps, simp]: "lift_sum (Inl e) = raise_prog e"
  by (simp add: lift_sum_def)

lemma ret_apply [prog_simps, simp]: "ret x s = (Ok x, s)"
  by (simp add: ret_def)

lemma raise_prog_apply [prog_simps, simp]: "raise_prog e s = (Raised e, s)"
  by (simp add: raise_prog_def)

lemma bind_sum_Inl [prog_simps, simp]: "bind_sum (Inl e) f = Inl e"
  by (simp add: bind_sum_def)

lemma bind_sum_Inr [prog_simps, simp]: "bind_sum (Inr x) f = f x"
  by (simp add: bind_sum_def)

section \<open>Lemmas on split, join and strip\<close>

lemma py_split_not_Nil [py_simps, simp]: "py_split c s \<noteq> []"
  by (induction s) (auto simp: Let_def)

lemma py_split_no_sep [py_simps]: "c \<notin> set s \<Longrightarrow> py_split c s = [s]"
  by (induction s) auto

lemma py_split_append_sep [py_simps]:
  "py_split c (xs @ c # ys) = py_split c xs @ py_split c ys"
proof (induction xs)
  case Nil
  then show ?case by simp
next
  case (Cons x xs)
  have ne: "py_split c xs \<noteq> []" by simp
  then show ?case
    using Cons by (cases "py_split c xs") (auto simp: Let_def)
qed

lemma length_py_split [py_simps]: "length (py_split c s) = Suc (count_list s c)"
proof (induction s)
  case Nil
  then show ?case by simp
next
  case (Cons x xs)
  have "py_split c xs \<noteq> []" by simp
  with Cons show ?case by (cases "py_split c xs") (auto simp: Let_def)
qed

lemma py_join_Cons [py_simps]:
  "ys \<noteq> [] \<Longrightarrow> py_join sep (x # ys) = x @ sep @ py_join sep ys"
  by (cases ys) auto

lemma py_join_prefix [py_simps]: "py_join sep ((a @ z) # ws) = a @ py_join sep (z # ws)"
  by (cases ws) auto

lemma py_join_append [py_simps]:
  "xs \<noteq> [] \<Longrightarrow> ys \<noteq> [] \<Longrightarrow> py_join sep (xs @ ys) = py_join sep xs @ sep @ py_join sep ys"
proof (induction xs)
  case Nil
  then show ?case by simp
next
  case (Cons x xs)
  then show ?case by (cases xs) (auto simp: py_join_Cons)
qed

lemma py_join_split [py_simps, simp]: "py_join [c] (py_split c s) = s"
proof (induction s)
  case Nil
  then show ?case by simp
next
  case (Cons x xs)
  have "py_split c xs \<noteq> []" by simp
  then obtain w ws where r: "py_split c xs = w # ws" by (cases "py_split c xs") auto
  show ?case
  proof (cases "x = c")
    case True
    with Cons r show ?thesis by simp
  next
    case False
    with Cons r show ?thesis by (cases ws) simp_all
  qed
qed

lemma py_split_join [py_simps]:
  "xs \<noteq> [] \<Longrightarrow> (\<forall>x \<in> set xs. c \<notin> set x) \<Longrightarrow> py_split c (py_join [c] xs) = xs"
proof (induction xs)
  case Nil
  then show ?case by simp
next
  case (Cons x xs)
  show ?case
  proof (cases xs)
    case Nil
    with Cons.prems show ?thesis by (simp add: py_split_no_sep)
  next
    case (Cons y ys)
    with Cons.IH Cons.prems show ?thesis
      by (simp add: py_split_append_sep py_split_no_sep)
  qed
qed

lemma py_split_single_char [py_simps]: "py_split c (py_join [c] xs) \<noteq> []"
  by simp

lemma dropWhile_hd_not: "s = [] \<or> \<not> P (hd s) \<Longrightarrow> dropWhile P s = s"
  by (cases s) auto

lemma py_strip_id [py_simps]:
  "s = [] \<or> (\<not> P (hd s) \<and> \<not> P (last s)) \<Longrightarrow> py_strip P s = s"
proof -
  assume h: "s = [] \<or> (\<not> P (hd s) \<and> \<not> P (last s))"
  then have "dropWhile P s = s" by (auto intro: dropWhile_hd_not)
  moreover from h have "dropWhile P (rev s) = rev s"
    by (auto intro: dropWhile_hd_not simp: hd_rev)
  ultimately show ?thesis by (simp add: py_strip_def)
qed

lemma py_strip_pad [py_simps]:
  "\<forall>c \<in> set pre. P c \<Longrightarrow> \<forall>c \<in> set post. P c \<Longrightarrow> s \<noteq> [] \<Longrightarrow>
   \<not> P (hd s) \<Longrightarrow> \<not> P (last s) \<Longrightarrow> py_strip P (pre @ s @ post) = s"
proof -
  assume pre: "\<forall>c \<in> set pre. P c" and post: "\<forall>c \<in> set post. P c"
    and ne: "s \<noteq> []" and h: "\<not> P (hd s)" and l: "\<not> P (last s)"
  from ne h have d1: "dropWhile P (s @ post) = s @ post"
    by (cases s) auto
  from ne l have d2: "dropWhile P (rev s) = rev s"
    by (cases "rev s") (auto simp: hd_rev [symmetric])
  from pre d1 have "dropWhile P (pre @ s @ post) = s @ post"
    by (simp add: dropWhile_append2)
  moreover from post d2 have "dropWhile P (rev post @ rev s) = rev s"
    by (subst dropWhile_append2) auto
  ultimately show ?thesis by (simp add: py_strip_def)
qed

lemma py_nth_less [py_simps, simp]: "i < length xs \<Longrightarrow> py_nth xs i = Inr (xs ! i)"
  by (simp add: py_nth_def)

lemma py_nth_ge [py_simps, simp]: "length xs \<le> i \<Longrightarrow> py_nth xs i = Inl IndexError"
  by (simp add: py_nth_def)

end
