(* ===== verification/Datagram.thy ===== *)
theory Datagram
  imports Prelude "HOL-Library.Word" "HOL-Library.Sublist"
begin

text \<open>
  The byte level under every \<^verbatim>\<open>sendto\<close> of the sources. A Python \<^verbatim>\<open>str\<close> goes
  on the wire as \<^verbatim>\<open>str.encode()\<close>, UTF-8 by default: a code point below 128 is one
  byte, a code point from 128 to 255 (the rest of the model's characters) two,
  \<open>110xxxxx 10xxxxxx\<close>. A UDP datagram over IPv4 carries at most 65507 bytes (65535
  less the 8-byte UDP and 20-byte IP headers); \<^verbatim>\<open>sendto\<close> of a longer one raises
  \<^verbatim>\<open>OSError\<close> (\<^verbatim>\<open>EMSGSIZE\<close>) and sends nothing. The receiving side stays at the
  string level (the network interface of theory \<open>Helpers\<close>): 65507 bytes are below
  \<^verbatim>\<open>BUFFER_SIZE\<close>, so \<^verbatim>\<open>recvfrom\<close> never truncates a datagram.
  The lemmas: the encoded length counts one or two bytes per character and only grows
  along \<open>subseq\<close>, so every piece of a datagram that fits fits as well.
\<close>

unbundle bit_operations_syntax

type_synonym byte = "8 word"

definition MAX_UDP_PAYLOAD :: nat where
  "MAX_UDP_PAYLOAD = 65507"

definition utf8_char :: "char \<Rightarrow> byte list" where
  "utf8_char c =
     (let w = (of_char c :: byte) in
      if w < 0x80 then [w] else [0xC0 OR drop_bit 6 w, 0x80 OR (w AND 0x3F)])"

definition utf8_encode :: "string \<Rightarrow> byte list" where
  "utf8_encode s = concat (map utf8_char s)"

text \<open>Whether \<^verbatim>\<open>sendto\<close> accepts a string as one datagram.\<close>

definition udp_fits :: "string \<Rightarrow> bool" where
  "udp_fits m = (length (utf8_encode m) \<le> MAX_UDP_PAYLOAD)"

definition sendto :: "string \<Rightarrow> py_error + byte list" where
  "sendto m = (if udp_fits m then Inr (utf8_encode m) else Inl OSError)"

section \<open>Lemmas\<close>

lemma unat_of_char_byte: "unat (of_char c :: byte) = of_char c"
proof -
  have "unat (of_nat (of_char c) :: byte) = of_char c"
    by (simp add: unat_of_nat)
  then show ?thesis by (simp only: of_nat_of_char)
qed

lemma utf8_encode_simps [simp]:
  "utf8_encode [] = []" "utf8_encode (c # s) = utf8_char c @ utf8_encode s"
  "utf8_encode (s @ t) = utf8_encode s @ utf8_encode t"
  by (simp_all add: utf8_encode_def)

definition utf8_width :: "char \<Rightarrow> nat" where
  "utf8_width c = (if of_char c < (128::nat) then 1 else 2)"

lemma length_utf8_char [simp]: "length (utf8_char c) = utf8_width c"
proof -
  have "((of_char c :: byte) < 0x80) = (of_char c < (128::nat))"
    by (simp add: word_less_nat_alt unat_of_char_byte)
  then show ?thesis by (simp add: utf8_char_def utf8_width_def Let_def)
qed

lemma length_utf8_encode: "length (utf8_encode s) = sum_list (map utf8_width s)"
  by (induction s) simp_all

lemma utf8_length_subseq: "subseq xs ys \<Longrightarrow> length (utf8_encode xs) \<le> length (utf8_encode ys)"
  by (induction rule: list_emb.induct) simp_all

lemma udp_fits_subseq: "subseq xs ys \<Longrightarrow> udp_fits ys \<Longrightarrow> udp_fits xs"
  unfolding udp_fits_def using utf8_length_subseq by (blast intro: le_trans)

lemma udp_fits_appendD: "udp_fits (xs @ ys) \<Longrightarrow> udp_fits xs \<and> udp_fits ys"
  by (simp add: udp_fits_def)

lemma udp_fits_iff: "udp_fits m \<longleftrightarrow> sum_list (map utf8_width m) \<le> 65507"
  by (simp add: udp_fits_def length_utf8_encode MAX_UDP_PAYLOAD_def)

lemma utf8_width_bounds: "1 \<le> utf8_width c" "utf8_width c \<le> 2"
  by (simp_all add: utf8_width_def)

lemma utf8_length_bounds: "length s \<le> length (utf8_encode s)" "length (utf8_encode s) \<le> 2 * length s"
proof -
  show "length s \<le> length (utf8_encode s)"
  proof (induction s)
    case (Cons a s)
    then show ?case using utf8_width_bounds(1) [of a] by simp
  qed simp
  show "length (utf8_encode s) \<le> 2 * length s"
  proof (induction s)
    case (Cons a s)
    then show ?case using utf8_width_bounds(2) [of a] by simp
  qed simp
qed

end
