(* ===== verification/Helpers.thy ===== *)
theory Helpers
  imports Datagram
begin

text \<open>
  Model of \<^verbatim>\<open>src/helpers.py\<close>, the utilities every process of the system shares:
  the port constants, \<^verbatim>\<open>splitInput\<close> and \<^verbatim>\<open>getInput\<close> (the domain decomposer: labels
  and right-aligned suffixes), \<^verbatim>\<open>getInputForNextServer\<close> (the payload extractor) and
  \<^verbatim>\<open>actAsTemporaryClient\<close> (one query to one tier: two datagrams out, one reply in,
  parsed by \<^verbatim>\<open>strip('[]').split(',')\<close>).
  The network seen by \<^verbatim>\<open>actAsTemporaryClient\<close> is the interface \<open>'n net\<close>: from its
  own state \<open>'n\<close>, a tier, the name-server datagram and the query datagram it
  gives the reply datagram, or \<open>None\<close> when none ever comes (the socket has no
  timeout, so the caller blocks for ever). The resolver and the tier servers agree on
  this interface (theories \<open>LocalResolver\<close> and \<open>Deployment\<close>).
  Each datagram goes through \<open>sendto\<close> of theory \<open>Datagram\<close>: a name server or a
  query too long for UDP raises \<^verbatim>\<open>OSError\<close>, and when only the query fails the
  name-server datagram has already left (the event \<open>Stray\<close>).
  The lemmas give \<^verbatim>\<open>getInput\<close> in closed form (the rightmost \<open>k\<close> labels in source
  order followed by one dot, or IndexError), and \<^verbatim>\<open>getInputForNextServer\<close> as the
  cleaned last message, and bound the size of what a reply carries.
  \<^verbatim>\<open>displayMessages\<close> is modelled as the lines it prints; \<^verbatim>\<open>customPrint\<close> is in
  theory \<open>Protocol\<close>, beside the list display it uses.
\<close>

section \<open>Constants and tiers\<close>

definition LOCAL_HOST :: string where "LOCAL_HOST = ''localhost''"
definition LOCAL_DNS_SERVER_PORT :: nat where "LOCAL_DNS_SERVER_PORT = 53"
definition ROOT_SERVER_PORT :: nat where "ROOT_SERVER_PORT = 9001"
definition TLD_SERVER_PORT :: nat where "TLD_SERVER_PORT = 9002"
definition AUTHORITATIVE_SERVER_PORT :: nat where "AUTHORITATIVE_SERVER_PORT = 9003"
definition BUFFER_SIZE :: nat where "BUFFER_SIZE = 65535"

text \<open>A tier is named by the fixed port the resolver sends its query to.\<close>

datatype tier = Root | TLD | Authoritative

fun tier_port :: "tier \<Rightarrow> nat" where
  "tier_port Root = ROOT_SERVER_PORT"
| "tier_port TLD = TLD_SERVER_PORT"
| "tier_port Authoritative = AUTHORITATIVE_SERVER_PORT"

text \<open>
  Tiers are ordered by their ports, which is the order in which the resolver consults
  them: root, then TLD, then authoritative.
\<close>

instantiation tier :: linorder
begin

definition less_eq_tier :: "tier \<Rightarrow> tier \<Rightarrow> bool" where
  "less_eq_tier a b = (tier_port a \<le> tier_port b)"

definition less_tier :: "tier \<Rightarrow> tier \<Rightarrow> bool" where
  "less_tier a b = (tier_port a < tier_port b)"

instance proof
  fix x y z :: tier
  show "(x < y) = (x \<le> y \<and> \<not> y \<le> x)" by (auto simp: less_eq_tier_def less_tier_def)
  show "x \<le> x" by (simp add: less_eq_tier_def)
  show "x \<le> y \<Longrightarrow> y \<le> z \<Longrightarrow> x \<le> z" by (simp add: less_eq_tier_def)
  show "x \<le> y \<Longrightarrow> y \<le> x \<Longrightarrow> x = y"
    by (cases x; cases y) (simp_all add: less_eq_tier_def ROOT_SERVER_PORT_def TLD_SERVER_PORT_def
        AUTHORITATIVE_SERVER_PORT_def)
  show "x \<le> y \<or> y \<le> x" by (auto simp: less_eq_tier_def)
qed

end

section \<open>Domain decomposition\<close>

definition splitInput :: "string \<Rightarrow> string list" where
  "splitInput userInput = py_split CHR ''.'' userInput"

text \<open>
  The loop of \<^verbatim>\<open>getInput\<close>, \<^verbatim>\<open>for i in range(n): s = result[i] + "." + s\<close>, over the
  index list \<open>[0..<n]\<close>; \<^verbatim>\<open>result[i]\<close> raises IndexError past the end.
\<close>

fun getInput_loop :: "string list \<Rightarrow> nat list \<Rightarrow> string \<Rightarrow> py_error + string" where
  "getInput_loop result [] returningString = Inr returningString"
| "getInput_loop result (i # idx) returningString =
     (case py_nth result i of
        Inl e \<Rightarrow> Inl e
      | Inr w \<Rightarrow> getInput_loop result idx (w @ ''.'' @ returningString))"

definition getInput :: "string \<Rightarrow> nat \<Rightarrow> py_error + string" where
  "getInput givenInput numberOfWords =
     getInput_loop (rev (splitInput givenInput)) [0..<numberOfWords] []"

text \<open>
  The spec's \<open>suffix(domain, k)\<close> (section 4.1): the rightmost \<open>k\<close> labels joined by
  dots in their left-to-right order. It is the abstraction \<^verbatim>\<open>getInput\<close> is measured by.
\<close>

definition suffix :: "domain \<Rightarrow> nat \<Rightarrow> string" where
  "suffix d k = py_join ''.'' (drop (length (splitInput d) - k) (splitInput d))"

section \<open>Reply handling\<close>

definition clean_message :: "string \<Rightarrow> string" where
  "clean_message message = removeAll (CHR 0x27) (py_strip py_isspace message)"

definition getInputForNextServer :: "string list \<Rightarrow> py_error + address" where
  "getInputForNextServer listOfMessages =
     (let cleanList = map clean_message listOfMessages in py_nth (rev cleanList) 0)"

text \<open>\<^verbatim>\<open>serverMessage.strip('[]').split(',')\<close>: the client side of the wire format.\<close>

definition parse_reply :: "string \<Rightarrow> string list" where
  "parse_reply serverMessage =
     py_split CHR '','' (py_strip (\<lambda>c. c = CHR ''['' \<or> c = CHR '']'') serverMessage)"

text \<open>
  \<^verbatim>\<open>displayMessages\<close>: the lines a server prints for its result list, each message
  stripped and without single quotes, then an empty line for the final \<^verbatim>\<open>print()\<close>.
\<close>

definition displayMessages :: "string list \<Rightarrow> string list" where
  "displayMessages listOfMessages = map clean_message listOfMessages @ [[]]"

section \<open>One query to one tier\<close>

datatype event =
    Query tier address string   \<comment> \<open>name-server datagram, then query datagram, to the tier's port\<close>
  | Stray tier address          \<comment> \<open>a name-server datagram whose query datagram could not be sent\<close>
  | ToClient string             \<comment> \<open>a datagram from the resolver to its client\<close>

type_synonym 'n net = "'n \<Rightarrow> tier \<Rightarrow> address \<Rightarrow> string \<Rightarrow> string option \<times> 'n"

record 'n io_state =
  net_state :: 'n
  trace :: "event list"

definition actAsTemporaryClient ::
  "'n net \<Rightarrow> string \<Rightarrow> tier \<Rightarrow> address \<Rightarrow> (('n, 'z) io_state_scheme, string list) prog" where
  "actAsTemporaryClient net message t nameServer s =
     (case sendto nameServer of
        Inl e \<Rightarrow> (Raised e, s)
      | Inr _ \<Rightarrow>
     (case sendto message of
        Inl e \<Rightarrow> (Raised e, s\<lparr>trace := trace s @ [Stray t nameServer]\<rparr>)
      | Inr _ \<Rightarrow>
     (let (reply, n') = net (net_state s) t nameServer message;
          s' = s\<lparr>net_state := n', trace := trace s @ [Query t nameServer message]\<rparr>
      in case reply of
           None \<Rightarrow> (Hang, s')
         | Some serverMessage \<Rightarrow> (Ok (parse_reply serverMessage), s'))))"

text \<open>
  A network made of UDP sockets delivers datagrams only: every reply fits in one
  (theory \<open>Datagram\<close>).
\<close>

definition net_fits :: "'n net \<Rightarrow> bool" where
  "net_fits net = (\<forall>n t ns q r. fst (net n t ns q) = Some r \<longrightarrow> udp_fits r)"

text \<open>
  A name-server address as DNS has them: a host name or an IP address, at most 255
  bytes (RFC 1035). The refinement lemmas ask this of the name servers the tiers are
  consulted at.
\<close>

definition short_addr :: "address \<Rightarrow> bool" where
  "short_addr a = (length (utf8_encode a) \<le> 255)"

section \<open>Lemmas\<close>

lemma splitInput_not_Nil [simp]: "splitInput d \<noteq> []"
  by (simp add: splitInput_def)

lemma join_splitInput [simp]: "py_join ''.'' (splitInput d) = d"
  by (simp add: splitInput_def)

lemma parse_reply_not_Nil [simp]: "parse_reply m \<noteq> []"
  by (simp add: parse_reply_def)

lemma getInput_loop_eq:
  "getInput_loop r idx acc =
     (if \<forall>i \<in> set idx. i < length r
      then Inr (concat (map (\<lambda>i. r ! i @ ''.'') (rev idx)) @ acc)
      else Inl IndexError)"
  by (induction r idx acc rule: getInput_loop.induct) (auto simp: py_nth_def)

lemma concat_map_sep: "xs \<noteq> [] \<Longrightarrow> concat (map (\<lambda>w. w @ sep) xs) = py_join sep xs @ sep"
proof (induction xs)
  case Nil
  then show ?case by simp
next
  case (Cons x xs)
  then show ?case by (cases xs) simp_all
qed

lemma map_nth_rev_upt: "k \<le> length r \<Longrightarrow> map (\<lambda>i. r ! i) (rev [0..<k]) = rev (take k r)"
proof -
  assume "k \<le> length r"
  then have "map (\<lambda>i. r ! i) [0..<k] = take k r"
    by (intro nth_equalityI) auto
  then show ?thesis by (simp add: rev_map [symmetric])
qed

lemma getInput_eq:
  "getInput d k =
     (if k = 0 then Inr []
      else if k \<le> length (splitInput d) then Inr (suffix d k @ ''.'')
      else Inl IndexError)"
proof -
  let ?ls = "splitInput d"
  have ix: "(\<forall>i \<in> set [0..<k]. i < length (rev ?ls)) \<longleftrightarrow> k \<le> length ?ls"
    by auto
  have m: "map (\<lambda>i. rev ?ls ! i @ ''.'') (rev [0..<k]) = map (\<lambda>w. w @ ''.'') (rev (take k (rev ?ls)))"
    if "k \<le> length ?ls"
  proof -
    have "map (\<lambda>i. rev ?ls ! i @ ''.'') (rev [0..<k]) =
          map (\<lambda>w. w @ ''.'') (map (\<lambda>i. rev ?ls ! i) (rev [0..<k]))"
      by simp
    with map_nth_rev_upt [of k "rev ?ls"] that show ?thesis by simp
  qed
  have t: "rev (take k (rev ?ls)) = drop (length ?ls - k) ?ls"
    by (simp add: take_rev)
  show ?thesis
    using ix m t
    by (auto simp: getInput_def getInput_loop_eq suffix_def concat_map_sep simp del: map_map)
qed

lemma suffix_full [simp]: "suffix d (length (splitInput d)) = d"
  by (simp add: suffix_def)

lemma getInputForNextServer_eq:
  "getInputForNextServer ms = (if ms = [] then Inl IndexError else Inr (clean_message (last ms)))"
  by (cases ms rule: rev_cases) (simp_all add: getInputForNextServer_def py_nth_def)

lemma length_suffix_le: "length (suffix d k) \<le> length d"
proof -
  let ?ws = "splitInput d"
  define m where "m = length ?ws - k"
  have sfx: "suffix d k = py_join ''.'' (drop m ?ws)" by (simp add: suffix_def m_def)
  consider "m = 0" | "length ?ws \<le> m" | "0 < m" "m < length ?ws" by linarith
  then show ?thesis
  proof cases
    case 1
    then show ?thesis by (simp add: sfx)
  next
    case 2
    then show ?thesis by (simp add: sfx)
  next
    case 3
    then have ne: "take m ?ws \<noteq> []" "drop m ?ws \<noteq> []" by auto
    have "d = py_join ''.'' (take m ?ws @ drop m ?ws)" by simp
    also have "\<dots> = py_join ''.'' (take m ?ws) @ ''.'' @ suffix d k"
      unfolding sfx by (rule py_join_append [OF ne])
    finally have "length d = length (py_join ''.'' (take m ?ws) @ ''.'' @ suffix d k)"
      by (rule arg_cong)
    then show ?thesis by simp
  qed
qed

lemma sendto_fits [simp]: "udp_fits m \<Longrightarrow> sendto m = Inr (utf8_encode m)"
  by (simp add: sendto_def)

lemma sendto_oversized [simp]: "\<not> udp_fits m \<Longrightarrow> sendto m = Inl OSError"
  by (simp add: sendto_def)

lemmas act_defs = actAsTemporaryClient_def sendto_def

lemma act_sent:
  "udp_fits nameServer \<Longrightarrow> udp_fits message \<Longrightarrow>
   actAsTemporaryClient net message t nameServer s =
     (case fst (net (net_state s) t nameServer message) of
        None \<Rightarrow> Hang | Some r \<Rightarrow> Ok (parse_reply r),
      s\<lparr>net_state := snd (net (net_state s) t nameServer message),
        trace := trace s @ [Query t nameServer message]\<rparr>)"
  by (cases "net (net_state s) t nameServer message")
     (simp add: actAsTemporaryClient_def split: option.splits)

lemma act_nameserver_oversized:
  "\<not> udp_fits nameServer \<Longrightarrow> actAsTemporaryClient net message t nameServer s = (Raised OSError, s)"
  by (simp add: actAsTemporaryClient_def)

lemma act_query_oversized:
  "udp_fits nameServer \<Longrightarrow> \<not> udp_fits message \<Longrightarrow>
   actAsTemporaryClient net message t nameServer s = (Raised OSError, s\<lparr>trace := trace s @ [Stray t nameServer]\<rparr>)"
  by (simp add: actAsTemporaryClient_def)

lemma short_addr_fits: "short_addr a \<Longrightarrow> udp_fits a"
  by (simp add: short_addr_def udp_fits_def MAX_UDP_PAYLOAD_def)

lemma subseq_trans: "subseq xs ys \<Longrightarrow> subseq ys zs \<Longrightarrow> subseq xs zs"
  by (rule subseq_order.trans)

lemma subseq_dropWhile: "subseq (dropWhile P xs) xs"
  by (induction xs) auto

lemma subseq_py_strip: "subseq (py_strip P s) s"
proof -
  let ?t = "dropWhile P s"
  have "?t = rev (dropWhile P (rev ?t)) @ rev (takeWhile P (rev ?t))"
    by (metis rev_append rev_rev_ident takeWhile_dropWhile_id)
  then have "prefix (rev (dropWhile P (rev ?t))) ?t" by (metis prefixI)
  then have "subseq (rev (dropWhile P (rev ?t))) ?t" by (rule prefix_imp_subseq)
  then show ?thesis
    unfolding py_strip_def by (rule subseq_trans [OF _ subseq_dropWhile])
qed

lemma subseq_clean_message: "subseq (clean_message m) m"
  unfolding clean_message_def removeAll_filter_not_eq
  by (rule subseq_trans [OF subseq_filter_left subseq_py_strip])

lemma subseq_py_split: "x \<in> set (py_split c s) \<Longrightarrow> subseq x s"
proof (induction s arbitrary: x)
  case Nil
  then show ?case by simp
next
  case (Cons a s)
  have h: "subseq (hd (py_split c s)) s" and t: "\<forall>y \<in> set (tl (py_split c s)). subseq y s"
    using Cons.IH by (cases "py_split c s"; simp)+
  show ?case
    using Cons.prems Cons.IH h t by (auto simp: Let_def split: if_splits intro: list_emb_Cons)
qed

lemma reply_payload_subseq: "getInputForNextServer (parse_reply r) = Inr a \<Longrightarrow> subseq a r"
proof -
  assume "getInputForNextServer (parse_reply r) = Inr a"
  then have a: "a = clean_message (last (parse_reply r))" by (simp add: getInputForNextServer_eq)
  have "subseq (last (parse_reply r)) (py_strip (\<lambda>c. c = CHR ''['' \<or> c = CHR '']'') r)"
    unfolding parse_reply_def by (rule subseq_py_split [where c = "CHR '',''"]) simp
  then have "subseq (last (parse_reply r)) r" by (rule subseq_trans [OF _ subseq_py_strip])
  then show ?thesis
    unfolding a by (rule subseq_trans [OF subseq_clean_message])
qed

lemma reply_payload_fits:
  "getInputForNextServer (parse_reply r) = Inr a \<Longrightarrow> udp_fits r \<Longrightarrow> udp_fits a"
  by (rule udp_fits_subseq [OF reply_payload_subseq])

text \<open>
  C7 (getInput on every branch). \<^verbatim>\<open>getInput d k\<close> is the empty string for
  \<open>k = 0\<close>, the spec's \<open>suffix d k\<close> followed by one dot for \<open>1 \<le> k \<le> N\<close> (N the
  number of labels), and raises IndexError for \<open>k > N\<close>. The trailing dot is what
  the resolver's \<^verbatim>\<open>[:-1]\<close> removes, so the full-domain key is the domain itself.
\<close>

theorem getInput_closed_form:
  "getInput d k =
     (if k = 0 then Inr []
      else if k \<le> length (splitInput d) then Inr (suffix d k @ ''.'')
      else Inl IndexError)"
  by (rule getInput_eq)


end
