(* ===== verification/Protocol.thy ===== *)
theory Protocol
  imports Helpers
begin

text \<open>
  The wire format between the tiers and the resolver (the spec's ResponseProtocol).
  A tier server sends \<^verbatim>\<open>str(result).encode()\<close> for its list of messages
  (\<^verbatim>\<open>rootDnsServer.py\<close> line 170, \<^verbatim>\<open>authoritativeDnsServer.py\<close> line 103): Python's
  list display, \<open>[\<close>, the \<^verbatim>\<open>repr\<close> of each string joined by \<open>, \<close>, \<open>]\<close>.
  \<open>py_repr_str\<close> is CPython's \<^verbatim>\<open>str.__repr__\<close> on code points below 256: the quote
  is \<open>'\<close> unless the string holds \<open>'\<close> and no \<open>"\<close>; backslash and the quote are
  escaped, tab, newline and carriage return become \<open>\t\<close>, \<open>\n\<close>, \<open>\r\<close>, and the
  other non-printable characters \<open>\xhh\<close>. The resolver decodes with \<open>parse_reply\<close>
  and \<open>clean_message\<close> (theory \<open>Helpers\<close>); the bytes under them are theory
  \<open>Datagram\<close>. The same list display, and the dict display, are what
  \<^verbatim>\<open>customPrint\<close> writes on a server's console.

  The lemmas show: a message without comma, quote, backslash or non-printable
  character is encoded as itself between quotes; a list of such messages decodes back
  to itself; and, whatever the earlier messages hold, the payload the resolver
  extracts is the last message as soon as that one is such a message. The decoding is
  not a left inverse in general: a message holding a comma is split in two.
\<close>

section \<open>Encoding: Python's str of a list of strings\<close>

definition py_isprintable :: "char \<Rightarrow> bool" where
  "py_isprintable c =
     (let n = (of_char c :: nat) in (32 \<le> n \<and> n < 127) \<or> (161 \<le> n \<and> n \<noteq> 173))"

definition hex_digit :: "nat \<Rightarrow> char" where
  "hex_digit n = (if n < 10 then char_of (48 + n) else char_of (87 + n))"

definition repr_char :: "char \<Rightarrow> char \<Rightarrow> string" where
  "repr_char quote c =
     (if c = quote \<or> c = CHR 0x5C then [CHR 0x5C, c]
      else if c = CHR 0x09 then [CHR 0x5C, CHR ''t'']
      else if c = CHR 0x0A then [CHR 0x5C, CHR ''n'']
      else if c = CHR 0x0D then [CHR 0x5C, CHR ''r'']
      else if py_isprintable c then [c]
      else [CHR 0x5C, CHR ''x'', hex_digit (of_char c div 16), hex_digit (of_char c mod 16)])"

definition repr_quote :: "string \<Rightarrow> char" where
  "repr_quote s = (if CHR 0x27 \<in> set s \<and> CHR 0x22 \<notin> set s then CHR 0x22 else CHR 0x27)"

definition py_repr_str :: "string \<Rightarrow> string" where
  "py_repr_str s = (let q = repr_quote s in q # concat (map (repr_char q) s) @ [q])"

definition py_str_list :: "string list \<Rightarrow> string" where
  "py_str_list xs = ''['' @ py_join '', '' (map py_repr_str xs) @ '']''"

section \<open>Debug printing\<close>

text \<open>
  \<^verbatim>\<open>customPrint(name, value)\<close> of \<^verbatim>\<open>helpers.py\<close>, over the three kinds of value
  the sources pass it: a \<^verbatim>\<open>str\<close>, a list of strings (the ignored labels
  \<^verbatim>\<open>_\<close>) and the resolver's \<^verbatim>\<open>cache\<close> dict. One entry per \<^verbatim>\<open>print\<close> call;
  \<^verbatim>\<open>print(value)\<close> writes \<^verbatim>\<open>str(value)\<close>, which is the string itself, the list
  display, or the dict display with the \<^verbatim>\<open>repr\<close> of each key and value.
\<close>

datatype py_value = PyStr string | PyList "string list" | PyDict "(string \<times> string) list"

fun py_print :: "py_value \<Rightarrow> string" where
  "py_print (PyStr s) = s"
| "py_print (PyList xs) = py_str_list xs"
| "py_print (PyDict c) =
     ''{'' @ py_join '', '' (map (\<lambda>(k, v). py_repr_str k @ '': '' @ py_repr_str v) c) @ ''}''"

fun py_type :: "py_value \<Rightarrow> string" where
  "py_type (PyStr _) = ''<class 'str'>''"
| "py_type (PyList _) = ''<class 'list'>''"
| "py_type (PyDict _) = ''<class 'dict'>''"

definition customPrint :: "string \<Rightarrow> py_value \<Rightarrow> string list" where
  "customPrint name value = [[], name @ '':'', py_print value, py_type value, []]"

section \<open>Messages that survive the round trip\<close>

definition safe_message :: "string \<Rightarrow> bool" where
  "safe_message m =
     (\<forall>c \<in> set m. py_isprintable c \<and> c \<noteq> CHR '','' \<and> c \<noteq> CHR 0x27 \<and> c \<noteq> CHR 0x5C)"

abbreviation is_bracket :: "char \<Rightarrow> bool" where
  "is_bracket c \<equiv> c = CHR ''['' \<or> c = CHR '']''"

section \<open>Lemmas\<close>

lemma repr_char_safe:
  "py_isprintable c \<Longrightarrow> c \<noteq> CHR 0x27 \<Longrightarrow> c \<noteq> CHR 0x5C \<Longrightarrow> repr_char (CHR 0x27) c = [c]"
proof -
  assume p: "py_isprintable c" and "c \<noteq> CHR 0x27" and "c \<noteq> CHR 0x5C"
  moreover from p have "c \<noteq> CHR 0x09 \<and> c \<noteq> CHR 0x0A \<and> c \<noteq> CHR 0x0D"
    by (auto simp: py_isprintable_def)
  ultimately show ?thesis by (simp add: repr_char_def)
qed

lemma py_repr_str_safe:
  "safe_message m \<Longrightarrow> py_repr_str m = CHR 0x27 # m @ [CHR 0x27]"
proof -
  assume s: "safe_message m"
  then have q: "repr_quote m = CHR 0x27"
    by (auto simp: repr_quote_def safe_message_def)
  from s have "concat (map (repr_char (CHR 0x27)) m) = m"
    by (induction m) (auto simp: safe_message_def repr_char_safe)
  with q show ?thesis by (simp add: py_repr_str_def Let_def)
qed

lemma py_repr_str_quote: "hd (py_repr_str s) \<in> {CHR 0x27, CHR 0x22}"
  by (simp add: py_repr_str_def Let_def repr_quote_def)

lemma py_repr_str_last: "last (py_repr_str s) \<in> {CHR 0x27, CHR 0x22}"
  by (simp add: py_repr_str_def Let_def repr_quote_def)

lemma py_join_comma_space:
  "py_join (c # sep) (y # ys) = py_join [c] (y # map (\<lambda>z. sep @ z) ys)"
proof (induction ys arbitrary: y)
  case Nil
  then show ?case by simp
next
  case (Cons z zs)
  then show ?case by (simp add: py_join_prefix)
qed

lemma clean_message_quoted:
  "\<forall>c \<in> set pre. py_isspace c \<Longrightarrow> CHR 0x27 \<notin> set m \<Longrightarrow>
   clean_message (pre @ CHR 0x27 # m @ [CHR 0x27]) = m"
proof -
  assume pre: "\<forall>c \<in> set pre. py_isspace c" and m: "CHR 0x27 \<notin> set m"
  have "\<not> py_isspace (CHR 0x27)" by (simp add: py_isspace_def)
  with pre have "py_strip py_isspace (pre @ (CHR 0x27 # m @ [CHR 0x27]) @ []) = CHR 0x27 # m @ [CHR 0x27]"
    by (intro py_strip_pad) auto
  with m show ?thesis by (simp add: clean_message_def)
qed

lemma repr_not_bracket:
  "\<not> is_bracket (hd (py_repr_str s))" "\<not> is_bracket (last (py_repr_str s))"
  using py_repr_str_quote [of s] py_repr_str_last [of s] by auto

lemma py_repr_str_not_Nil [simp]: "py_repr_str s \<noteq> []"
  by (simp add: py_repr_str_def Let_def)

lemma strip_py_str_list:
  "xs \<noteq> [] \<Longrightarrow> py_strip is_bracket (py_str_list xs) = py_join '', '' (map py_repr_str xs)"
proof -
  assume ne: "xs \<noteq> []"
  let ?b = "py_join '', '' (map py_repr_str xs)"
  obtain y ys where xs: "xs = y # ys" using ne by (cases xs) auto
  have hd: "hd ?b = hd (py_repr_str y)"
    using xs by (cases ys) auto
  have lst: "last ?b = last (py_repr_str (last xs))"
  proof (cases xs rule: rev_cases)
    case Nil
    with ne show ?thesis by simp
  next
    case (snoc zs z)
    then show ?thesis
      by (cases "zs = []") (simp_all add: py_join_append)
  qed
  have nb: "?b \<noteq> []"
    using xs by (cases ys) auto
  show ?thesis
    unfolding py_str_list_def
    using nb hd lst repr_not_bracket [of y] repr_not_bracket [of "last xs"]
    by (intro py_strip_pad) auto
qed

lemma safe_no_comma: "safe_message m \<Longrightarrow> CHR '','' \<notin> set m"
  by (auto simp: safe_message_def)

lemma safe_no_quote: "safe_message m \<Longrightarrow> CHR 0x27 \<notin> set m"
  by (auto simp: safe_message_def)

lemma parse_reply_last:
  assumes ne: "xs \<noteq> []" and s: "safe_message (last xs)"
  shows "last (parse_reply (py_str_list xs)) = '' '' @ CHR 0x27 # last xs @ [CHR 0x27]
         \<or> (parse_reply (py_str_list xs) = [CHR 0x27 # last xs @ [CHR 0x27]])"
proof (cases xs rule: rev_cases)
  case Nil
  with ne show ?thesis by simp
next
  case (snoc zs z)
  have qz: "py_repr_str z = CHR 0x27 # z @ [CHR 0x27]"
    using s snoc by (simp add: py_repr_str_safe)
  have nz: "CHR '','' \<notin> set (CHR 0x27 # z @ [CHR 0x27])"
    using s snoc by (auto simp: safe_message_def)
  show ?thesis
  proof (cases "zs = []")
    case True
    with snoc qz nz show ?thesis
      by (simp add: parse_reply_def strip_py_str_list py_split_no_sep)
  next
    case False
    have "py_join '', '' (map py_repr_str xs) =
          py_join '', '' (map py_repr_str zs) @ CHR '','' # '' '' @ py_repr_str z"
      using snoc False by (simp add: py_join_append)
    moreover have "CHR '','' \<notin> set ('' '' @ py_repr_str z)"
      using nz qz by simp
    ultimately show ?thesis
      using snoc qz ne
      by (simp add: parse_reply_def strip_py_str_list py_split_append_sep py_split_no_sep)
  qed
qed

lemma parse_reply_safe_list:
  assumes ne: "xs \<noteq> []" and s: "\<forall>x \<in> set xs. safe_message x"
  shows "parse_reply (py_str_list xs) =
         (CHR 0x27 # hd xs @ [CHR 0x27]) # map (\<lambda>x. '' '' @ CHR 0x27 # x @ [CHR 0x27]) (tl xs)"
proof -
  obtain y ys where xs: "xs = y # ys" using ne by (cases xs) auto
  have r: "map py_repr_str ys = map (\<lambda>x. CHR 0x27 # x @ [CHR 0x27]) ys"
    using s xs by (simp add: py_repr_str_safe)
  have ry: "py_repr_str y = CHR 0x27 # y @ [CHR 0x27]"
    using s xs by (simp add: py_repr_str_safe)
  have "py_join '', '' (map py_repr_str xs) =
        py_join '','' (py_repr_str y # map (\<lambda>z. '' '' @ z) (map py_repr_str ys))"
    using xs py_join_comma_space [of "CHR '',''" "'' ''"] by simp
  then have j: "py_join '', '' (map py_repr_str xs) =
           py_join '','' ((CHR 0x27 # y @ [CHR 0x27]) # map (\<lambda>x. '' '' @ CHR 0x27 # x @ [CHR 0x27]) ys)"
    by (simp only: r ry map_map o_def)
  have nc: "\<forall>w \<in> set ((CHR 0x27 # y @ [CHR 0x27]) # map (\<lambda>x. '' '' @ CHR 0x27 # x @ [CHR 0x27]) ys).
              CHR '','' \<notin> set w"
    using s xs by (auto simp: safe_message_def)
  show ?thesis
    unfolding parse_reply_def strip_py_str_list [OF ne] j
    using nc xs by (simp add: py_split_join)
qed

text \<open>
  C5 (round trip). Decoding what a tier encodes gives back its list of messages
  whenever the list is non-empty and no message holds a comma, a single quote, a
  backslash or a non-printable character: \<^verbatim>\<open>str(result)\<close> on the tier side, then
  \<^verbatim>\<open>strip('[]').split(',')\<close> and the per-message \<^verbatim>\<open>strip()\<close> / \<^verbatim>\<open>replace("'", "")\<close>
  on the resolver side.
\<close>

theorem decode_encode_safe:
  assumes "xs \<noteq> []" and "\<forall>x \<in> set xs. safe_message x"
  shows "map clean_message (parse_reply (py_str_list xs)) = xs"
proof -
  obtain y ys where xs: "xs = y # ys" using assms(1) by (cases xs) auto
  have sp: "\<forall>c \<in> set '' ''. py_isspace c" by (simp add: py_isspace_def)
  have "\<forall>x \<in> set ys. clean_message ('' '' @ CHR 0x27 # x @ [CHR 0x27]) = x"
    using assms(2) xs clean_message_quoted [OF sp] by (auto simp: safe_no_quote)
  then have "map clean_message (map (\<lambda>x. '' '' @ CHR 0x27 # x @ [CHR 0x27]) ys) = ys"
    by (induction ys) auto
  moreover have "clean_message (CHR 0x27 # y @ [CHR 0x27]) = y"
    using assms(2) xs clean_message_quoted [of "[]" y] by (simp add: safe_no_quote)
  ultimately show ?thesis
    using parse_reply_safe_list [OF assms] xs by simp
qed

theorem decode_encode_safe_witness:
  "[''a.root-servers.net.'', ''198.41.0.4''] \<noteq> [] \<and>
   safe_message ''a.root-servers.net.'' \<and> safe_message ''198.41.0.4'' \<and>
   map clean_message (parse_reply (py_str_list [''a.root-servers.net.'', ''198.41.0.4''])) =
     [''a.root-servers.net.'', ''198.41.0.4'']"
proof -
  have s: "\<forall>x \<in> set [''a.root-servers.net.'', ''198.41.0.4'']. safe_message x"
    by (simp add: safe_message_def py_isprintable_def)
  show ?thesis using decode_encode_safe [OF _ s] s by simp
qed

lemma getInputForNextServer_encoded:
  assumes "xs \<noteq> []" and "safe_message (last xs)"
  shows "getInputForNextServer (parse_reply (py_str_list xs)) = Inr (last xs)"
proof -
  have sp: "\<forall>c \<in> set '' ''. py_isspace c" by (simp add: py_isspace_def)
  have q: "CHR 0x27 \<notin> set (last xs)" using assms(2) by (rule safe_no_quote)
  from parse_reply_last [OF assms] show ?thesis
  proof
    assume "last (parse_reply (py_str_list xs)) = '' '' @ CHR 0x27 # last xs @ [CHR 0x27]"
    then show ?thesis
      using clean_message_quoted [OF sp q] by (simp add: getInputForNextServer_eq)
  next
    assume "parse_reply (py_str_list xs) = [CHR 0x27 # last xs @ [CHR 0x27]]"
    then show ?thesis
      using clean_message_quoted [of "[]" "last xs"] q by (simp add: getInputForNextServer_eq)
  qed
qed

text \<open>
  C6 (payload extraction). Whatever the diagnostic messages before it hold (commas,
  quotes, brackets), the address \<^verbatim>\<open>getInputForNextServer\<close> extracts from a tier's
  encoded reply is the reply's last message, provided that one is a safe message.
\<close>

theorem payload_is_last_message:
  assumes "xs \<noteq> []" and "safe_message (last xs)"
  shows "getInputForNextServer (parse_reply (py_str_list xs)) = Inr (last xs)"
  using assms by (rule getInputForNextServer_encoded)

theorem payload_is_last_message_witness:
  "[''a, b'', ''it's [x]'', ''192.5.6.30''] \<noteq> [] \<and> safe_message (last [''a, b'', ''it's [x]'', ''192.5.6.30'']) \<and>
   getInputForNextServer (parse_reply (py_str_list [''a, b'', ''it's [x]'', ''192.5.6.30''])) = Inr ''192.5.6.30''"
proof -
  have s: "safe_message (last [''a, b'', ''it's [x]'', ''192.5.6.30''])"
    by (simp add: safe_message_def py_isprintable_def)
  show ?thesis using payload_is_last_message [OF _ s] s by simp
qed

section \<open>Size of an encoded reply\<close>

lemma length_repr_char: "length (repr_char q c) \<le> 4"
  by (simp add: repr_char_def)

lemma length_py_repr_str: "length (py_repr_str s) \<le> 4 * length s + 2"
proof -
  have "length (concat (map (repr_char q) s)) \<le> 4 * length s" for q
    by (induction s) (simp_all add: add_mono length_repr_char)
  then show ?thesis by (simp add: py_repr_str_def Let_def)
qed

lemma length_py_join: "length (py_join sep xs) \<le> sum_list (map length xs) + length sep * length xs"
  by (induction sep xs rule: py_join.induct) simp_all

lemma length_py_str_list: "length (py_str_list ms) \<le> 2 + sum_list (map (\<lambda>m. 4 * length m + 4) ms)"
proof -
  have "sum_list (map length (map py_repr_str ms)) + 2 * length ms \<le> sum_list (map (\<lambda>m. 4 * length m + 4) ms)"
  proof (induction ms)
    case (Cons a ms)
    then show ?case using length_py_repr_str [of a] by simp
  qed simp
  then show ?thesis
    using length_py_join [of "'', ''" "map py_repr_str ms"] by (simp add: py_str_list_def)
qed

lemma py_str_list_fits:
  "sum_list (map (\<lambda>m. 4 * length m + 4) ms) \<le> 32750 \<Longrightarrow> udp_fits (py_str_list ms)"
  using length_py_str_list [of ms] utf8_length_bounds(2) [of "py_str_list ms"]
  by (simp add: udp_fits_def MAX_UDP_PAYLOAD_def)

end
