(* ===== verification/LocalResolver.thy ===== *)
theory LocalResolver
  imports Protocol
begin

text \<open>
  Model of \<^verbatim>\<open>src/localDnsServer.py\<close>, the resolver engine. Its state is the module
  global \<^verbatim>\<open>cache\<close> (a dict, here an association list updated by \<open>AList.update\<close>,
  which keeps Python's insertion order and overwrites in place), together with the
  network state and the trace of datagrams it sends (the record \<open>io_state\<close> of
  theory \<open>Helpers\<close>, extended by the cache). \<open>localDnsServer_request\<close> is one
  iteration of the \<^verbatim>\<open>while True\<close> loop of \<^verbatim>\<open>localDnsServer()\<close> (lines 64 to 219),
  statement by statement: the acknowledgement to the client, the root name server
  taken from the system resolver (\<^verbatim>\<open>nameservers[0]\<close>), the decomposition of the
  query into \<^verbatim>\<open>rootInput\<close>, \<^verbatim>\<open>tldInput\<close> and \<^verbatim>\<open>authoritativeInput\<close>, the cache test
  on \<^verbatim>\<open>rootInput\<close>, the three calls of \<^verbatim>\<open>generalServerHandler\<close> with the cache
  stores between them, and the final answer. \<open>localDnsServer_loop\<close> serves a list of
  queries in order; an uncaught exception ends the process (\<open>Raised\<close>) and an
  unanswered query blocks it (\<open>Hang\<close>). Every \<^verbatim>\<open>sendto\<close> is the one of theory
  \<open>Datagram\<close>, so an acknowledgement longer than a datagram raises \<^verbatim>\<open>OSError\<close>;
  the interface lemmas bound the addresses involved (\<open>short_addr\<close>, \<open>cache_short\<close>).
\<close>

record 'n resolver_state = "'n io_state" +
  cache :: "(string \<times> address) list"

definition init_resolver :: "'n \<Rightarrow> 'n resolver_state" where
  "init_resolver n = \<lparr>net_state = n, trace = [], cache = []\<rparr>"

section \<open>Operations\<close>

text \<open>
  \<^verbatim>\<open>cache.get(searchKey)\<close>; on a missing key Python returns \<^verbatim>\<open>None\<close> and the later
  \<^verbatim>\<open>nameServer.encode()\<close> raises, which the caller's guard rules out.
\<close>

definition fetchFromCache :: "string \<Rightarrow> ('n resolver_state, address) prog" where
  "fetchFromCache searchKey s =
     (case map_of (cache s) searchKey of
        Some ipAddress \<Rightarrow> (Ok ipAddress, s)
      | None \<Rightarrow> (Raised AttributeError, s))"

definition store_cache :: "string \<Rightarrow> address \<Rightarrow> ('n resolver_state, unit) prog" where
  "store_cache k v s = (Ok (), s\<lparr>cache := AList.update k v (cache s)\<rparr>)"

text \<open>\<^verbatim>\<open>localDnsServerSocket.sendto(message, clientAddress)\<close>, which raises OSError on a datagram too long for UDP.\<close>

definition send_client :: "string \<Rightarrow> ('n resolver_state, unit) prog" where
  "send_client message s =
     (case sendto message of
        Inl e \<Rightarrow> (Raised e, s)
      | Inr _ \<Rightarrow> (Ok (), s\<lparr>trace := trace s @ [ToClient message]\<rparr>))"

definition generalServerHandler ::
  "'n net \<Rightarrow> string \<Rightarrow> address \<Rightarrow> tier \<Rightarrow> ('n resolver_state, address) prog" where
  "generalServerHandler net userInput nameServer t =
     bind_prog (actAsTemporaryClient net userInput t nameServer)
       (\<lambda>result. lift_sum (getInputForNextServer result))"

definition hang_message :: "string \<Rightarrow> string" where
  "hang_message userInput =
     ''Hang in there client, I will get the IP Address of the '' @ CHR 0x22 # userInput @ [CHR 0x22]"

text \<open>\<^verbatim>\<open>rootInput, tldInput, *_ = splitResult\<close>.\<close>

definition unpack2 :: "'a list \<Rightarrow> py_error + ('a \<times> 'a)" where
  "unpack2 xs = (case xs of a # b # _ \<Rightarrow> Inr (a, b) | _ \<Rightarrow> Inl ValueError)"

definition root_in_cache :: "'n resolver_state \<Rightarrow> string \<Rightarrow> bool" where
  "root_in_cache s rootInput = (cache s \<noteq> [] \<and> rootInput \<in> fst ` set (cache s))"

definition localDnsServer_request ::
  "'n net \<Rightarrow> address list \<Rightarrow> string \<Rightarrow> ('n resolver_state, address) prog" where
  "localDnsServer_request net nameservers userInput =
     bind_prog (send_client (hang_message userInput)) (\<lambda>_.
     bind_prog (lift_sum (py_nth nameservers 0)) (\<lambda>rootNameServer.
     bind_prog (lift_sum (unpack2 (rev (splitInput userInput)))) (\<lambda>(rootInput, tldLabel).
     let tldInput = tldLabel @ ''.'' @ rootInput in
     bind_prog (lift_sum (getInput userInput (length (splitInput userInput)))) (\<lambda>fullInput.
     let authoritativeInput = butlast fullInput in
     bind_prog (\<lambda>s. if root_in_cache s rootInput then fetchFromCache rootInput s
                    else generalServerHandler net userInput rootNameServer Root s) (\<lambda>tldNameServer.
     bind_prog (store_cache rootInput tldNameServer) (\<lambda>_.
     bind_prog (generalServerHandler net userInput tldNameServer TLD) (\<lambda>authoritativeServer.
     bind_prog (store_cache tldInput authoritativeServer) (\<lambda>_.
     bind_prog (generalServerHandler net userInput authoritativeServer Authoritative)
       (\<lambda>finalIpAddress.
     bind_prog (store_cache authoritativeInput finalIpAddress) (\<lambda>_.
     bind_prog (send_client finalIpAddress) (\<lambda>_.
     ret finalIpAddress)))))))))))"

fun localDnsServer_loop ::
  "'n net \<Rightarrow> address list \<Rightarrow> string list \<Rightarrow> ('n resolver_state, address list) prog" where
  "localDnsServer_loop net nameservers [] = ret []"
| "localDnsServer_loop net nameservers (u # us) =
     bind_prog (localDnsServer_request net nameservers u) (\<lambda>ip.
     bind_prog (localDnsServer_loop net nameservers us) (\<lambda>ips. ret (ip # ips)))"

text \<open>
  What an iteration prints on the resolver's console about the decomposition of the
  query (lines 128 to 158): \<^verbatim>\<open>splitResult\<close> reversed and unpacked into
  \<^verbatim>\<open>rootInput, tldInput, *_\<close> (ValueError below two labels), \<^verbatim>\<open>tldInput\<close>
  completed with the root label, \<^verbatim>\<open>authoritativeInput\<close> as \<^verbatim>\<open>getInput\<close> less its
  last character, then the four \<^verbatim>\<open>customPrint\<close> calls.
\<close>

definition resolver_inputs_print :: "string \<Rightarrow> py_error + string list" where
  "resolver_inputs_print userInput =
     (case rev (splitInput userInput) of
        rootInput # tldLabel # rest \<Rightarrow>
          (let tldInput = tldLabel @ ''.'' @ rootInput in
           bind_sum (getInput userInput (length (splitInput userInput))) (\<lambda>fullInput.
           let authoritativeInput = butlast fullInput in
           Inr (customPrint ''rootInput'' (PyStr rootInput) @ customPrint ''tldInput'' (PyStr tldInput)
                @ customPrint ''_'' (PyList rest) @ customPrint ''authoritativeInput'' (PyStr authoritativeInput))))
      | _ \<Rightarrow> Inl ValueError)"

section \<open>The abstract resolver of the spec\<close>

text \<open>
  Section 4.4 of the spec, over an abstract answer function: \<open>ask t ns\<close> is the
  next-hop address tier \<open>t\<close> gives when asked for the domain at name server \<open>ns\<close>.
  The result is the final address, the new cache (as a map) and the tier round trips,
  in order. Only the root stage may be answered from the cache.
\<close>

definition spec_resolve ::
  "(tier \<Rightarrow> address \<Rightarrow> address) \<Rightarrow> address \<Rightarrow> domain \<Rightarrow> (string \<rightharpoonup> address)
   \<Rightarrow> address \<times> (string \<rightharpoonup> address) \<times> (tier \<times> address) list" where
  "spec_resolve ask rootNS d m =
     (let rootKey = suffix d 1; tldKey = suffix d 2; fullKey = suffix d (length (splitInput d));
          (tldNS, q) = (case m rootKey of
                          Some a \<Rightarrow> (a, [])
                        | None \<Rightarrow> (ask Root rootNS, [(Root, rootNS)]));
          authNS = ask TLD tldNS;
          final = ask Authoritative authNS
      in (final, m(rootKey \<mapsto> tldNS, tldKey \<mapsto> authNS, fullKey \<mapsto> final),
          q @ [(TLD, tldNS), (Authoritative, authNS)]))"

text \<open>
  The interface the resolver needs from the network, for one domain: in every
  network state satisfying \<open>P\<close>, each tier answers a query for \<open>d\<close> at a name server
  \<open>ns\<close> of at most 255 bytes with the encoding of a message list whose last message is
  the safe address \<open>ask t ns\<close>, itself of at most 255 bytes, and the network stays in
  \<open>P\<close>.
\<close>

definition net_answers ::
  "'n net \<Rightarrow> ('n \<Rightarrow> bool) \<Rightarrow> domain \<Rightarrow> (tier \<Rightarrow> address \<Rightarrow> address) \<Rightarrow> bool" where
  "net_answers net P d ask =
     (\<forall>n t ns. P n \<longrightarrow> short_addr ns \<longrightarrow> safe_message (ask t ns) \<and> short_addr (ask t ns) \<and>
        (\<exists>ms. fst (net n t ns d) = Some (py_str_list (ms @ [ask t ns]))) \<and> P (snd (net n t ns d)))"

text \<open>
  A network for the examples: every tier is up, answers with one diagnostic message
  and an address that depends only on the tier.
\<close>

definition demo_ask :: "tier \<Rightarrow> address \<Rightarrow> address" where
  "demo_ask t ns =
     (case t of Root \<Rightarrow> ''192.5.6.30'' | TLD \<Rightarrow> ''128.119.40.186''
      | Authoritative \<Rightarrow> ''128.119.245.12'')"

definition demo_net :: "unit net" where
  "demo_net n t ns q = (Some (py_str_list [''looked up'', demo_ask t ns]), n)"

text \<open>How many queries of a trace go to a tier.\<close>

definition tier_queries :: "tier \<Rightarrow> event list \<Rightarrow> nat" where
  "tier_queries t tr = length (filter (\<lambda>e. case e of Query t' _ _ \<Rightarrow> t' = t | Stray _ _ \<Rightarrow> False | ToClient _ \<Rightarrow> False) tr)"

section \<open>The cache invariant and the reachable states\<close>

text \<open>
  The dict stays a function of its keys (no key twice), and it is closed under taking
  the last label: whenever \<open>a.b.c\<close> is a key, \<open>c\<close> is one too. The second half holds
  because the resolver stores \<^verbatim>\<open>cache[rootInput]\<close> before \<^verbatim>\<open>cache[tldInput]\<close> and
  \<^verbatim>\<open>cache[authoritativeInput]\<close>, and both of these end in \<^verbatim>\<open>rootInput\<close>.
\<close>

definition cache_inv :: "(string \<times> address) list \<Rightarrow> bool" where
  "cache_inv c =
     (distinct (map fst c) \<and> (\<forall>k \<in> fst ` set c. last (splitInput k) \<in> fst ` set c))"

text \<open>
  Every cached address fits in one datagram, so that the resolver can send it on as a
  name server or to the client.
\<close>

definition cache_fits :: "(string \<times> address) list \<Rightarrow> bool" where
  "cache_fits c = (\<forall>v \<in> ran (map_of c). udp_fits v)"

definition cache_short :: "(string \<times> address) list \<Rightarrow> bool" where
  "cache_short c = (\<forall>v \<in> ran (map_of c). short_addr v)"

text \<open>The states of the resolver process: it starts with an empty cache and serves queries.\<close>

inductive resolver_reachable :: "'n net \<Rightarrow> address list \<Rightarrow> 'n resolver_state \<Rightarrow> bool"
  for net nameservers where
  start: "resolver_reachable net nameservers (init_resolver n)"
| serve: "resolver_reachable net nameservers s \<Longrightarrow>
          localDnsServer_request net nameservers d s = (Ok ip, s') \<Longrightarrow>
          resolver_reachable net nameservers s'"

section \<open>The keys the resolver computes\<close>

lemma splitInput_no_dot: "CHR ''.'' \<notin> set w \<Longrightarrow> splitInput w = [w]"
  by (simp add: splitInput_def py_split_no_sep)

lemma labels_no_dot: "w \<in> set (splitInput d) \<Longrightarrow> CHR ''.'' \<notin> set w"
proof (induction d arbitrary: w)
  case Nil
  then show ?case by (simp add: splitInput_def)
next
  case (Cons x xs)
  have "py_split CHR ''.'' xs \<noteq> []" by simp
  then obtain r rs where r: "py_split CHR ''.'' xs = r # rs"
    by (cases "py_split CHR ''.'' xs") auto
  with Cons show ?case
    by (auto simp: splitInput_def split: if_splits)
qed

lemma unpack2_keys:
  assumes "2 \<le> length (splitInput d)"
  shows "unpack2 (rev (splitInput d)) =
           Inr (suffix d 1, splitInput d ! (length (splitInput d) - 2))
       \<and> splitInput d ! (length (splitInput d) - 2) @ ''.'' @ suffix d 1 = suffix d 2"
proof -
  let ?ls = "splitInput d"
  obtain ys b where l1: "?ls = ys @ [b]"
    by (cases ?ls rule: rev_cases) auto
  with assms obtain pre a where "ys = pre @ [a]"
    by (cases ys rule: rev_cases) auto
  with l1 have ls: "?ls = pre @ [a, b]" by simp
  have d1: "drop (length ?ls - 1) ?ls = [b]" using ls by simp
  have d2: "drop (length ?ls - 2) ?ls = [a, b]" using ls by simp
  show ?thesis
    using ls d1 d2 by (simp add: unpack2_def suffix_def nth_append)
qed

lemma authoritative_key: "butlast (suffix d (length (splitInput d)) @ ''.'') = d"
  by simp

lemma getInput_full: "getInput d (length (splitInput d)) = Inr (d @ ''.'')"
  by (simp add: getInput_eq)

lemma suffix_1_label: "CHR ''.'' \<notin> set (suffix d 1)"
proof -
  obtain pre b where "splitInput d = pre @ [b]"
    by (cases "splitInput d" rule: rev_cases) auto
  moreover from this have "CHR ''.'' \<notin> set b"
    using labels_no_dot [of b d] by simp
  ultimately show ?thesis by (simp add: suffix_def)
qed

lemma last_splitInput_suffix: "0 < k \<Longrightarrow> last (splitInput (suffix d k)) = suffix d 1"
proof -
  assume k: "0 < k"
  obtain pre b where ls: "splitInput d = pre @ [b]"
    by (cases "splitInput d" rule: rev_cases) auto
  let ?ws = "drop (length (splitInput d) - k) (splitInput d)"
  have ne: "?ws \<noteq> []" using k ls by auto
  have nd: "\<forall>w \<in> set ?ws. CHR ''.'' \<notin> set w"
    by (meson in_set_dropD labels_no_dot)
  have "splitInput (suffix d k) = ?ws"
    using ne nd by (simp add: suffix_def splitInput_def py_split_join)
  moreover have "last ?ws = b" using ls k by simp
  ultimately show ?thesis using ls by (simp add: suffix_def)
qed

section \<open>Lemmas on the resolver's steps\<close>

lemma net_answers_P:
  "net_answers net P d ask \<Longrightarrow> P n \<Longrightarrow> short_addr ns \<Longrightarrow> P (snd (net n t ns d))"
  by (simp add: net_answers_def)

lemma net_answers_short:
  "net_answers net P d ask \<Longrightarrow> P n \<Longrightarrow> short_addr ns \<Longrightarrow> short_addr (ask t ns)"
  by (simp add: net_answers_def)

lemma hang_message_fits: "udp_fits (hang_message d) \<Longrightarrow> udp_fits d"
proof -
  have "subseq d (hang_message d)"
    unfolding hang_message_def
    by (rule subseq_drop_many, rule list_emb_Cons, rule subseq_rev_drop_many, rule subseq_order.refl)
  then show "udp_fits (hang_message d) \<Longrightarrow> udp_fits d" by (rule udp_fits_subseq)
qed

lemma short_addr_iff: "short_addr a \<longleftrightarrow> sum_list (map utf8_width a) \<le> 255"
  by (simp add: short_addr_def length_utf8_encode)

lemmas fits_eval = udp_fits_iff short_addr_iff utf8_width_def py_str_list_def py_repr_str_def
  repr_quote_def repr_char_def py_isprintable_def hang_message_def Let_def

lemma cache_short_get: "cache_short c \<Longrightarrow> map_of c k = Some v \<Longrightarrow> short_addr v"
  by (auto simp: cache_short_def intro: ranI)

lemma cache_short_update: "cache_short c \<Longrightarrow> short_addr v \<Longrightarrow> cache_short (AList.update k v c)"
  by (auto simp: cache_short_def update_conv' ran_def split: if_splits)

lemma cache_fits_get: "cache_fits c \<Longrightarrow> map_of c k = Some v \<Longrightarrow> udp_fits v"
  by (auto simp: cache_fits_def intro: ranI)

lemma gsh_reply:
  assumes r: "fst (net (net_state s) t ns d) = Some (py_str_list (ms @ [a]))"
    and sf: "safe_message a" and fn: "udp_fits ns" and fd: "udp_fits d"
  shows "generalServerHandler net d ns t s =
           (Ok a, s\<lparr>net_state := snd (net (net_state s) t ns d), trace := trace s @ [Query t ns d]\<rparr>)"
proof -
  have "getInputForNextServer (parse_reply (py_str_list (ms @ [a]))) = Inr a"
    using getInputForNextServer_encoded [of "ms @ [a]"] sf by simp
  with r show ?thesis
    by (simp add: generalServerHandler_def act_sent [OF fn fd] bind_prog_apply)
qed

lemma gsh_noreply:
  "fst (net (net_state s) t ns d) = None \<Longrightarrow> udp_fits ns \<Longrightarrow> udp_fits d \<Longrightarrow>
   generalServerHandler net d ns t s =
     (Hang, s\<lparr>net_state := snd (net (net_state s) t ns d), trace := trace s @ [Query t ns d]\<rparr>)"
  by (simp add: generalServerHandler_def act_sent bind_prog_apply)

lemma gsh_nameserver_oversized:
  "\<not> udp_fits ns \<Longrightarrow> generalServerHandler net d ns t s = (Raised OSError, s)"
  by (simp add: generalServerHandler_def act_nameserver_oversized bind_prog_apply)

lemma gsh_cache: "generalServerHandler net u ns t s = (r, s') \<Longrightarrow> cache s' = cache s"
  by (auto simp: generalServerHandler_def act_defs bind_prog_apply lift_sum_def Let_def
      split: prod.splits option.splits outcome.splits sum.splits if_splits)

lemma fetch_state: "fetchFromCache k s = (r, s') \<Longrightarrow> s' = s"
  by (auto simp: fetchFromCache_def split: option.splits)

lemma gsh_answers:
  assumes "net_answers net P d ask" and "P (net_state s)" and sn: "short_addr ns" and fd: "udp_fits d"
  shows "generalServerHandler net d ns t s =
           (Ok (ask t ns), s\<lparr>net_state := snd (net (net_state s) t ns d),
                             trace := trace s @ [Query t ns d]\<rparr>)"
proof -
  from assms obtain ms where r: "fst (net (net_state s) t ns d) = Some (py_str_list (ms @ [ask t ns]))"
    and sf: "safe_message (ask t ns)"
    unfolding net_answers_def by blast
  have fn: "udp_fits ns" by (rule short_addr_fits [OF sn])
  show ?thesis
    by (rule gsh_reply [where net = net and s = s and t = t and ns = ns and d = d and ms = ms
          and a = "ask t ns", OF r sf fn fd])
qed

lemma gsh_fits:
  assumes run: "generalServerHandler net u ns t s = (Ok a, s')" and nf: "net_fits net"
  shows "udp_fits a"
proof -
  obtain r where r: "fst (net (net_state s) t ns u) = Some r"
    and a: "getInputForNextServer (parse_reply r) = Inr a"
    using run by (auto simp: generalServerHandler_def act_defs bind_prog_apply lift_sum_def Let_def
      split: prod.splits option.splits outcome.splits sum.splits if_splits)
  have "udp_fits r" using nf r unfolding net_fits_def by blast
  with a show ?thesis by (rule reply_payload_fits)
qed

lemma root_in_cache_iff: "root_in_cache s k \<longleftrightarrow> map_of (cache s) k \<noteq> None"
  by (auto simp: root_in_cache_def map_of_eq_None_iff)

lemma store_cache_apply [simp]:
  "store_cache k v s = (Ok (), s\<lparr>cache := AList.update k v (cache s)\<rparr>)"
  by (simp add: store_cache_def)

lemma send_client_apply [simp]:
  "udp_fits m \<Longrightarrow> send_client m s = (Ok (), s\<lparr>trace := trace s @ [ToClient m]\<rparr>)"
  by (simp add: send_client_def)

lemma send_client_oversized [simp]:
  "\<not> udp_fits m \<Longrightarrow> send_client m s = (Raised OSError, s)"
  by (simp add: send_client_def)

lemmas request_simps = localDnsServer_request_def bind_prog_apply Let_def getInput_full
  root_in_cache_iff fetchFromCache_def update_conv'

lemma request_spec_run:
  assumes ans: "net_answers net P d ask" and P: "P (net_state s)"
    and two: "2 \<le> length (splitInput d)" and ns: "nameservers \<noteq> []"
    and fh: "udp_fits (hang_message d)" and fn: "short_addr (hd nameservers)"
    and cs: "cache_short (cache s)"
  shows "\<exists>s'. localDnsServer_request net nameservers d s =
            (Ok (fst (spec_resolve ask (hd nameservers) d (map_of (cache s)))), s')
          \<and> map_of (cache s') = fst (snd (spec_resolve ask (hd nameservers) d (map_of (cache s))))
          \<and> trace s' = trace s @ ToClient (hang_message d) #
               map (\<lambda>(t, a). Query t a d) (snd (snd (spec_resolve ask (hd nameservers) d (map_of (cache s)))))
               @ [ToClient (fst (spec_resolve ask (hd nameservers) d (map_of (cache s))))]
          \<and> P (net_state s') \<and> cache_short (cache s')"
proof -
  obtain l2 where u: "unpack2 (rev (splitInput d)) = Inr (suffix d 1, l2)"
    and k2: "l2 @ ''.'' @ suffix d 1 = suffix d 2"
    using unpack2_keys [OF two] by blast
  have k2': "l2 @ CHR ''.'' # suffix d (Suc 0) = suffix d 2" using k2 by simp
  have n0: "py_nth nameservers 0 = Inr (hd nameservers)"
    using ns by (simp add: py_nth_def hd_conv_nth)
  have fd: "udp_fits d" by (rule hang_message_fits [OF fh])
  note gsh = gsh_answers [OF ans _ _ fd]
  note sa = net_answers_short [OF ans] net_answers_P [OF ans]
  show ?thesis
  proof (cases "map_of (cache s) (suffix d 1)")
    case None
    with P fn cs show ?thesis
      by (simp add: request_simps u k2' n0 fh gsh sa short_addr_fits cache_short_update spec_resolve_def)
  next
    case (Some a)
    have "short_addr a" using cache_short_get [OF cs] Some by simp
    with Some P cs show ?thesis
      by (simp add: request_simps u k2' n0 fh gsh sa short_addr_fits cache_short_update spec_resolve_def)
  qed
qed

text \<open>
  C1 (refinement of the resolution algorithm). On a network that answers every tier
  query for \<open>d\<close> with a well-formed reply, one iteration of the resolver's loop on a
  domain of at least two labels returns the spec's final address, leaves the cache
  equal (as a map) to the spec's new cache, and sends exactly the spec's round trips in
  order, between the acknowledgement and the answer to the client, provided every
  datagram it sends fits in UDP: the acknowledgement fits, and the root name server, the
  cached addresses and the addresses the tiers give are DNS-sized (at most 255 bytes).
  In particular the
  cache keys are \<open>suffix d 1\<close>, \<open>suffix d 2\<close> and the whole domain, and a cached root
  key saves the root round trip but never the TLD or authoritative one.
\<close>

theorem request_refines_spec:
  assumes ans: "net_answers net P d ask" and P: "P (net_state s)"
    and two: "2 \<le> length (splitInput d)" and ns: "nameservers \<noteq> []"
    and fh: "udp_fits (hang_message d)" and fn: "short_addr (hd nameservers)"
    and cs: "cache_short (cache s)"
  shows "\<exists>s'. localDnsServer_request net nameservers d s =
            (Ok (fst (spec_resolve ask (hd nameservers) d (map_of (cache s)))), s')
          \<and> map_of (cache s') = fst (snd (spec_resolve ask (hd nameservers) d (map_of (cache s))))
          \<and> trace s' = trace s @ ToClient (hang_message d) #
               map (\<lambda>(t, a). Query t a d) (snd (snd (spec_resolve ask (hd nameservers) d (map_of (cache s)))))
               @ [ToClient (fst (spec_resolve ask (hd nameservers) d (map_of (cache s))))]
          \<and> P (net_state s')"
  using request_spec_run [OF assms] by blast

theorem request_refines_spec_witness:
  "net_answers (\<lambda>(n::unit) t ns q. (Some (py_str_list [''looked up'',
       case t of Root \<Rightarrow> ''192.5.6.30'' | TLD \<Rightarrow> ''128.119.40.186''
       | Authoritative \<Rightarrow> ''128.119.245.12'']), n))
     (\<lambda>_. True) ''gaia.cs.umass.edu''
     (\<lambda>t ns. case t of Root \<Rightarrow> ''192.5.6.30'' | TLD \<Rightarrow> ''128.119.40.186''
       | Authoritative \<Rightarrow> ''128.119.245.12'')
   \<and> 2 \<le> length (splitInput ''gaia.cs.umass.edu'') \<and> [''8.8.8.8''] \<noteq> []
   \<and> udp_fits (hang_message ''gaia.cs.umass.edu'') \<and> short_addr (hd [''8.8.8.8''])
   \<and> cache_short (cache (init_resolver ()))
   \<and> (\<exists>s'. localDnsServer_request (\<lambda>(n::unit) t ns q. (Some (py_str_list [''looked up'',
       case t of Root \<Rightarrow> ''192.5.6.30'' | TLD \<Rightarrow> ''128.119.40.186''
       | Authoritative \<Rightarrow> ''128.119.245.12'']), n)) [''8.8.8.8''] ''gaia.cs.umass.edu''
       (init_resolver ()) = (Ok ''128.119.245.12'', s')
     \<and> map_of (cache s') ''edu'' = Some ''192.5.6.30''
     \<and> map_of (cache s') ''umass.edu'' = Some ''128.119.40.186''
     \<and> map_of (cache s') ''gaia.cs.umass.edu'' = Some ''128.119.245.12'')"
proof -
  let ?A = "\<lambda>t ns. case t of Root \<Rightarrow> ''192.5.6.30'' | TLD \<Rightarrow> ''128.119.40.186''
       | Authoritative \<Rightarrow> ''128.119.245.12''"
  let ?N = "\<lambda>(n::unit) t (ns::string) (q::string). (Some (py_str_list [''looked up'', ?A t ns]), n)"
  have a: "net_answers ?N (\<lambda>_. True) ''gaia.cs.umass.edu'' ?A"
    unfolding net_answers_def
  proof (intro allI impI conjI)
    fix n t ns
    show "safe_message (?A t ns)"
      by (cases t) (simp_all add: safe_message_def py_isprintable_def)
    show "short_addr (?A t ns)"
      by (cases t) (simp_all add: fits_eval)
    show "\<exists>ms. fst (?N n t ns ''gaia.cs.umass.edu'') = Some (py_str_list (ms @ [?A t ns]))"
      by (rule exI [of _ "[''looked up'']"]) simp
  qed simp
  have two: "2 \<le> length (splitInput ''gaia.cs.umass.edu'')"
    by (simp add: splitInput_def)
  have k: "suffix ''gaia.cs.umass.edu'' 1 = ''edu''" "suffix ''gaia.cs.umass.edu'' 2 = ''umass.edu''"
    by (simp_all add: suffix_def splitInput_def)
  have fh: "udp_fits (hang_message ''gaia.cs.umass.edu'')" by (simp add: fits_eval)
  have fn: "short_addr (hd [''8.8.8.8''])" by (simp add: fits_eval)
  have cs: "cache_short (cache (init_resolver ()))" by (simp add: cache_short_def init_resolver_def)
  show ?thesis
    using request_refines_spec [OF a _ two _ fh fn cs] a two k fh fn cs
    by (auto simp: spec_resolve_def init_resolver_def Let_def)
qed

section \<open>The cache on every outcome\<close>

lemma cache_inv_update:
  "cache_inv c \<Longrightarrow> last (splitInput k) \<in> insert k (fst ` set c) \<Longrightarrow> cache_inv (AList.update k v c)"
  by (auto simp: cache_inv_def distinct_update dom_update)

lemma last_splitInput_d: "last (splitInput d) = suffix d 1"
  using last_splitInput_suffix [of "length (splitInput d)" d] by simp

lemma last_splitInput_1: "last (splitInput (suffix d (Suc 0))) = suffix d (Suc 0)"
  using last_splitInput_suffix [of 1 d] by simp

lemma last_splitInput_2: "last (splitInput (suffix d 2)) = suffix d (Suc 0)"
  using last_splitInput_suffix [of 2 d] by simp

lemma unpack2_short: "\<not> 2 \<le> length xs \<Longrightarrow> unpack2 (rev xs) = Inl ValueError"
  by (cases "rev xs" rule: remdups_adj.cases) (auto simp: unpack2_def)

lemma keys_two:
  assumes "2 \<le> length (splitInput d)"
  obtains l2 where "unpack2 (rev (splitInput d)) = Inr (suffix d (Suc 0), l2)"
    and "l2 @ CHR ''.'' # suffix d (Suc 0) = suffix d 2"
  using unpack2_keys [OF assms] by auto

lemmas request_split_simps = localDnsServer_request_def bind_prog_apply Let_def getInput_full
  lift_sum_def send_client_def sendto_def

lemma request_cache_inv:
  assumes run: "localDnsServer_request net nss d s = (r, s')" and inv: "cache_inv (cache s)"
  shows "cache_inv (cache s')"
proof (cases "2 \<le> length (splitInput d)")
  case False
  with run inv show ?thesis
    by (auto simp: request_split_simps unpack2_short split: sum.splits)
next
  case True
  then obtain l2 where u: "unpack2 (rev (splitInput d)) = Inr (suffix d (Suc 0), l2)"
    and k2: "l2 @ CHR ''.'' # suffix d (Suc 0) = suffix d 2"
    by (rule keys_two)
  show ?thesis
    using run inv
    by (auto simp: request_split_simps u k2 last_splitInput_d [of d] last_splitInput_2
        last_splitInput_1 dom_update intro!: cache_inv_update
        split: prod.splits outcome.splits sum.splits if_splits dest!: gsh_cache fetch_state)
qed

lemma dom_update_mem: "a \<in> fst ` set c \<Longrightarrow> a \<in> fst ` set (AList.update k v c)"
  by (simp add: dom_update)

lemma pair_key_mem: "(a, b) \<in> set c \<Longrightarrow> a \<in> fst ` set c"
  by (rule rev_image_eqI) auto

lemma request_dom_mono:
  assumes run: "localDnsServer_request net nss d s = (r, s')"
  shows "fst ` set (cache s) \<subseteq> fst ` set (cache s')"
proof (cases "2 \<le> length (splitInput d)")
  case False
  with run show ?thesis
    by (auto simp: request_split_simps unpack2_short split: sum.splits)
next
  case True
  then obtain l2 where u: "unpack2 (rev (splitInput d)) = Inr (suffix d (Suc 0), l2)"
    and k2: "l2 @ CHR ''.'' # suffix d (Suc 0) = suffix d 2"
    by (rule keys_two)
  show ?thesis
    using run
    by (auto simp: request_split_simps u k2 intro!: dom_update_mem intro: pair_key_mem
        split: prod.splits outcome.splits sum.splits if_splits dest!: gsh_cache fetch_state)
qed

lemma reachable_cache_inv: "resolver_reachable net nss s \<Longrightarrow> cache_inv (cache s)"
proof (induction rule: resolver_reachable.induct)
  case (start n)
  then show ?case by (simp add: init_resolver_def cache_inv_def)
next
  case (serve s d ip s')
  then show ?case by (blast intro: request_cache_inv)
qed

text \<open>
  C9 (cache invariant). In every state the resolver process reaches, and after any
  further query whatever its outcome (answered, an exception, or blocked on a tier that
  never replies), no key is in the cache twice and the last label of every key is
  itself a key: the cache is never left half-written.
\<close>

theorem cache_invariant:
  assumes "resolver_reachable net nss s"
    and "localDnsServer_request net nss d s = (r, s')"
  shows "cache_inv (cache s')"
  using reachable_cache_inv [OF assms(1)] assms(2) by (rule request_cache_inv [rotated])

theorem cache_invariant_witness:
  "resolver_reachable (\<lambda>(n::unit) t ns q. (None, n)) [''8.8.8.8''] (init_resolver ()) \<and>
   cache_inv (cache (snd (localDnsServer_request (\<lambda>(n::unit) t ns q. (None, n)) [''8.8.8.8'']
     ''gaia.cs.umass.edu'' (init_resolver ()))))"
proof -
  let ?N = "\<lambda>(n::unit) t (ns::string) (q::string). (None :: string option, n)"
  have r: "resolver_reachable ?N [''8.8.8.8''] (init_resolver ())"
    by (rule resolver_reachable.start)
  show ?thesis
    using r cache_invariant [OF r prod.collapse [symmetric]] by simp
qed

text \<open>
  C8 (the console shows the cache keys). On a query of at least two labels the
  resolver prints, as \<^verbatim>\<open>rootInput\<close>, \<^verbatim>\<open>tldInput\<close> and
  \<^verbatim>\<open>authoritativeInput\<close>, the last label, the last two labels and the whole query,
  the three keys it caches under, and as \<^verbatim>\<open>_\<close> the list of the remaining labels
  from right to left; on fewer labels it raises ValueError before printing. For
  \<open>subdomain.example.com\<close> this is \<open>com\<close>, \<open>example.com\<close>, \<open>['subdomain']\<close>
  and \<open>subdomain.example.com\<close>, not the \<open>example.subdomain\<close>, \<open>[]\<close> and
  \<open>com.example.subdomain\<close> of the comments at lines 140 to 152.
\<close>

theorem inputs_print_shows_keys:
  "resolver_inputs_print d =
     (if 2 \<le> length (splitInput d)
      then Inr (customPrint ''rootInput'' (PyStr (suffix d 1)) @ customPrint ''tldInput'' (PyStr (suffix d 2))
             @ customPrint ''_'' (PyList (rev (take (length (splitInput d) - 2) (splitInput d))))
             @ customPrint ''authoritativeInput'' (PyStr d))
      else Inl ValueError)"
proof (cases "2 \<le> length (splitInput d)")
  case True
  then obtain a b rest where r: "rev (splitInput d) = a # b # rest"
    by (cases "rev (splitInput d)" rule: remdups_adj.cases) auto
  have k: "a = suffix d (Suc 0)" "b @ CHR ''.'' # suffix d (Suc 0) = suffix d 2"
    using unpack2_keys [OF True] r by (simp_all add: unpack2_def)
  have "rest = drop 2 (rev (splitInput d))" using r by simp
  then have "rest = rev (take (length (splitInput d) - 2) (splitInput d))" by (simp add: drop_rev)
  then show ?thesis
    using True by (simp add: resolver_inputs_print_def r k getInput_full)
next
  case False
  then have "length (rev (splitInput d)) < 2" by simp
  then show ?thesis
    using False by (auto simp: resolver_inputs_print_def split: list.split)
qed

theorem inputs_print_shows_keys_witness:
  "resolver_inputs_print ''subdomain.example.com'' =
     Inr (customPrint ''rootInput'' (PyStr ''com'') @ customPrint ''tldInput'' (PyStr ''example.com'')
          @ customPrint ''_'' (PyList [''subdomain'']) @ customPrint ''authoritativeInput'' (PyStr ''subdomain.example.com''))"
  using inputs_print_shows_keys [of "''subdomain.example.com''"]
  by (simp add: splitInput_def suffix_def)

text \<open>
  C24 (malformed input). A query of fewer than two labels makes the resolver raise
  ValueError at the unpacking of \<^verbatim>\<open>splitResult\<close>, after its acknowledgement to the
  client and before any tier is contacted; the cache is untouched. The exception is
  not caught, so it ends the resolver process (and with it the cache).
\<close>

theorem single_label_raises:
  assumes "\<not> 2 \<le> length (splitInput d)" and "nss \<noteq> []" and "udp_fits (hang_message d)"
  shows "localDnsServer_request net nss d s =
           (Raised ValueError, s\<lparr>trace := trace s @ [ToClient (hang_message d)]\<rparr>)"
  using assms by (simp add: request_simps unpack2_short py_nth_def)

theorem single_label_raises_witness:
  "\<not> 2 \<le> length (splitInput ''nota_domain'') \<and> [''8.8.8.8''] \<noteq> [] \<and>
   udp_fits (hang_message ''nota_domain'') \<and>
   localDnsServer_request (\<lambda>(n::unit) t ns q. (None, n)) [''8.8.8.8''] ''nota_domain'' (init_resolver ()) =
     (Raised ValueError, (init_resolver ())\<lparr>trace := [ToClient (hang_message ''nota_domain'')]\<rparr>)"
proof -
  have h: "\<not> 2 \<le> length (splitInput ''nota_domain'')" by (simp add: splitInput_def)
  have fh: "udp_fits (hang_message ''nota_domain'')" by (simp add: fits_eval)
  show ?thesis
    using h fh single_label_raises [OF h _ fh, of "[''8.8.8.8'']" "\<lambda>(n::unit) t ns q. (None, n)" "init_resolver ()"]
    by (simp add: init_resolver_def)
qed

text \<open>
  C26 (a tier that never replies). If the root tier answers and the TLD tier never does,
  the resolver blocks for ever in the TLD round trip, with the root entry already in
  its cache and nothing else changed: the earlier stage's result is kept, and no
  timeout or error path exists (spec 4.3 and 7 ask for one).
\<close>

theorem tld_silence_hangs:
  assumes two: "2 \<le> length (splitInput d)" and ns: "nss \<noteq> []"
    and nc: "map_of (cache s) (suffix d 1) = None"
    and root: "fst (net (net_state s) Root (hd nss) d) = Some (py_str_list (ms @ [a]))"
    and sa: "safe_message a"
    and tld: "fst (net (snd (net (net_state s) Root (hd nss) d)) TLD a d) = None"
    and fh: "udp_fits (hang_message d)" and fn: "udp_fits (hd nss)" and fa: "udp_fits a"
  shows "\<exists>s'. localDnsServer_request net nss d s = (Hang, s')
           \<and> map_of (cache s') = (map_of (cache s))(suffix d 1 \<mapsto> a)
           \<and> trace s' = trace s @ [ToClient (hang_message d), Query Root (hd nss) d, Query TLD a d]"
proof -
  obtain l2 where u: "unpack2 (rev (splitInput d)) = Inr (suffix d (Suc 0), l2)"
    by (rule keys_two [OF two])
  have n0: "py_nth nss 0 = Inr (hd nss)"
    using ns by (simp add: py_nth_def hd_conv_nth)
  have fd: "udp_fits d" by (rule hang_message_fits [OF fh])
  show ?thesis
    using nc root tld
    by (simp add: request_simps u n0 fh fn fa fd gsh_reply [OF _ sa] gsh_noreply)
qed


theorem tld_silence_hangs_witness:
  "2 \<le> length (splitInput ''gaia.cs.umass.edu'') \<and> [''8.8.8.8''] \<noteq> [] \<and>
   map_of (cache (init_resolver ())) (suffix ''gaia.cs.umass.edu'' 1) = None \<and>
   safe_message ''192.5.6.30'' \<and> udp_fits (hang_message ''gaia.cs.umass.edu'') \<and>
   udp_fits (hd [''8.8.8.8'']) \<and> udp_fits ''192.5.6.30'' \<and>
   (\<exists>s'. localDnsServer_request
       (\<lambda>(n::unit) t ns q. (if t = Root then Some (py_str_list [''x'', ''192.5.6.30'']) else None, n))
       [''8.8.8.8''] ''gaia.cs.umass.edu'' (init_resolver ()) = (Hang, s')
     \<and> map_of (cache s') = [''edu'' \<mapsto> ''192.5.6.30''])"
proof -
  let ?N = "\<lambda>(n::unit) t (ns::string) (q::string).
    (if t = Root then Some (py_str_list [''x'', ''192.5.6.30'']) else None, n)"
  have two: "2 \<le> length (splitInput ''gaia.cs.umass.edu'')" by (simp add: splitInput_def)
  have sa: "safe_message ''192.5.6.30''" by (simp add: safe_message_def py_isprintable_def)
  have nc: "map_of (cache (init_resolver ())) (suffix ''gaia.cs.umass.edu'' 1) = None"
    by (simp add: init_resolver_def)
  have root: "fst (?N (net_state (init_resolver ())) Root (hd [''8.8.8.8'']) ''gaia.cs.umass.edu'') =
      Some (py_str_list ([''x''] @ [''192.5.6.30'']))" by simp
  have tld: "fst (?N (snd (?N (net_state (init_resolver ())) Root (hd [''8.8.8.8'']) ''gaia.cs.umass.edu''))
      TLD ''192.5.6.30'' ''gaia.cs.umass.edu'') = None" by simp
  have k: "suffix ''gaia.cs.umass.edu'' 1 = ''edu''" by (simp add: suffix_def splitInput_def)
  have fh: "udp_fits (hang_message ''gaia.cs.umass.edu'')" by (simp add: fits_eval)
  have fn: "udp_fits (hd [''8.8.8.8''])" and fa: "udp_fits ''192.5.6.30''" by (simp_all add: fits_eval)
  show ?thesis
    using tld_silence_hangs [OF two _ nc root sa tld fh fn fa] two sa nc k fh fn fa
    by (auto simp: init_resolver_def)
qed

section \<open>Serving several queries\<close>

lemma tier_queries_append [simp]:
  "tier_queries t (xs @ ys) = tier_queries t xs + tier_queries t ys"
  by (simp add: tier_queries_def)

lemma tier_queries_simps [simp]:
  "tier_queries t [] = 0"
  "tier_queries t (ToClient m # xs) = tier_queries t xs"
  "tier_queries t (Query t' a q # xs) = (if t' = t then Suc (tier_queries t xs) else tier_queries t xs)"
  by (simp_all add: tier_queries_def)

lemma spec_cache_root:
  "fst (snd (spec_resolve ask rootNS d m)) (suffix d 1) \<noteq> None"
  by (simp add: spec_resolve_def Let_def split: option.splits prod.splits)

lemma cache_fits_update: "cache_fits c \<Longrightarrow> udp_fits v \<Longrightarrow> cache_fits (AList.update k v c)"
  by (auto simp: cache_fits_def update_conv' ran_def split: if_splits)

lemma gsh_out_fits:
  "generalServerHandler net u ns t s = (r, s') \<Longrightarrow> net_fits net \<Longrightarrow>
   cache s' = cache s \<and> (\<forall>a. r = Ok a \<longrightarrow> udp_fits a)"
  using gsh_fits gsh_cache by blast

lemma fetch_out:
  "fetchFromCache k s = (r, s') \<Longrightarrow> s' = s \<and> (\<forall>v. r = Ok v \<longrightarrow> map_of (cache s) k = Some v)"
  by (auto simp: fetchFromCache_def split: option.splits)

lemma request_cache_fits:
  assumes run: "localDnsServer_request net nss d s = (r, s')" and nf: "net_fits net"
    and cf: "cache_fits (cache s)"
  shows "cache_fits (cache s')"
proof (cases "2 \<le> length (splitInput d)")
  case False
  with run cf show ?thesis
    by (auto simp: request_split_simps unpack2_short split: sum.splits if_splits)
next
  case True
  then obtain l2 where u: "unpack2 (rev (splitInput d)) = Inr (suffix d (Suc 0), l2)"
    by (rule keys_two)
  show ?thesis
    using run cf
    by (auto simp: request_split_simps u intro!: cache_fits_update intro: cache_fits_get
        split: prod.splits outcome.splits sum.splits if_splits dest!: gsh_out_fits [OF _ nf] fetch_out)
qed

lemma demo_net_fits: "net_fits demo_net"
  by (auto simp: net_fits_def demo_net_def demo_ask_def fits_eval split: tier.splits)

text \<open>
  C12 (the cache saves the root round trip). Serving two queries whose last labels agree
  (\<open>gaia.cs.umass.edu\<close>, then \<open>other.cs.umass.edu\<close>) in one process contacts the root
  tier at most once in all, but the TLD and the authoritative tiers twice each: the
  second query is answered from the cache at the root stage only (spec section 8).
\<close>

theorem second_query_skips_root:
  assumes a1: "net_answers net P d1 ask1" and a2: "net_answers net P d2 ask2"
    and P: "P (net_state s)"
    and t1: "2 \<le> length (splitInput d1)" and t2: "2 \<le> length (splitInput d2)"
    and same: "suffix d1 1 = suffix d2 1" and ns: "nss \<noteq> []"
    and fh1: "udp_fits (hang_message d1)" and fh2: "udp_fits (hang_message d2)"
    and fn: "short_addr (hd nss)" and cs: "cache_short (cache s)"
  shows "\<exists>ips s'. localDnsServer_loop net nss [d1, d2] s = (Ok ips, s')
           \<and> tier_queries Root (trace s') \<le> Suc (tier_queries Root (trace s))
           \<and> tier_queries TLD (trace s') = tier_queries TLD (trace s) + 2
           \<and> tier_queries Authoritative (trace s') = tier_queries Authoritative (trace s) + 2"
proof -
  let ?S1 = "spec_resolve ask1 (hd nss) d1 (map_of (cache s))"
  obtain s1 where r1: "localDnsServer_request net nss d1 s = (Ok (fst ?S1), s1)"
    and c1: "map_of (cache s1) = fst (snd ?S1)"
    and tr1: "trace s1 = trace s @ ToClient (hang_message d1) #
               map (\<lambda>(t, a). Query t a d1) (snd (snd ?S1)) @ [ToClient (fst ?S1)]"
    and P1: "P (net_state s1)" and cs1: "cache_short (cache s1)"
    using request_spec_run [OF a1 P t1 ns fh1 fn cs] by blast
  let ?S2 = "spec_resolve ask2 (hd nss) d2 (map_of (cache s1))"
  obtain s2 where r2: "localDnsServer_request net nss d2 s1 = (Ok (fst ?S2), s2)"
    and tr2: "trace s2 = trace s1 @ ToClient (hang_message d2) #
               map (\<lambda>(t, a). Query t a d2) (snd (snd ?S2)) @ [ToClient (fst ?S2)]"
    using request_spec_run [OF a2 P1 t2 ns fh2 fn cs1] by blast
  have hit: "map_of (cache s1) (suffix d2 1) \<noteq> None"
    using c1 spec_cache_root [of ask1 "hd nss" d1 "map_of (cache s)"] same by simp
  have run: "localDnsServer_loop net nss [d1, d2] s = (Ok [fst ?S1, fst ?S2], s2)"
    using r1 r2 by (simp add: bind_prog_apply)
  have q2: "tier_queries Root (map (\<lambda>(t, a). Query t a d2) (snd (snd ?S2))) = 0"
    "tier_queries TLD (map (\<lambda>(t, a). Query t a d2) (snd (snd ?S2))) = 1"
    "tier_queries Authoritative (map (\<lambda>(t, a). Query t a d2) (snd (snd ?S2))) = 1"
    using hit by (auto simp: spec_resolve_def Let_def split: option.splits prod.splits)
  have q1: "tier_queries Root (map (\<lambda>(t, a). Query t a d1) (snd (snd ?S1))) \<le> 1"
    "tier_queries TLD (map (\<lambda>(t, a). Query t a d1) (snd (snd ?S1))) = 1"
    "tier_queries Authoritative (map (\<lambda>(t, a). Query t a d1) (snd (snd ?S1))) = 1"
    by (auto simp: spec_resolve_def Let_def split: option.splits prod.splits)
  show ?thesis
    using run tr1 tr2 q1 q2 by auto
qed

lemma demo_net_answers: "net_answers demo_net (\<lambda>_. True) d demo_ask"
  unfolding net_answers_def
proof (intro allI impI conjI)
  fix n t ns
  show "safe_message (demo_ask t ns)"
    by (cases t) (simp_all add: demo_ask_def safe_message_def py_isprintable_def)
  show "short_addr (demo_ask t ns)"
    by (cases t) (simp_all add: demo_ask_def fits_eval)
  show "\<exists>ms. fst (demo_net n t ns d) = Some (py_str_list (ms @ [demo_ask t ns]))"
    by (rule exI [of _ "[''looked up'']"]) (simp add: demo_net_def)
qed simp

theorem second_query_skips_root_witness:
  "net_answers demo_net (\<lambda>_. True) ''gaia.cs.umass.edu'' demo_ask \<and>
   net_answers demo_net (\<lambda>_. True) ''other.cs.umass.edu'' demo_ask \<and>
   2 \<le> length (splitInput ''gaia.cs.umass.edu'') \<and> 2 \<le> length (splitInput ''other.cs.umass.edu'') \<and>
   suffix ''gaia.cs.umass.edu'' 1 = suffix ''other.cs.umass.edu'' 1 \<and>
   udp_fits (hang_message ''gaia.cs.umass.edu'') \<and>
   udp_fits (hang_message ''other.cs.umass.edu'') \<and> short_addr (hd [''8.8.8.8'']) \<and>
   cache_short (cache (init_resolver ())) \<and>
   (\<exists>ips s'. localDnsServer_loop demo_net [''8.8.8.8''] [''gaia.cs.umass.edu'', ''other.cs.umass.edu'']
        (init_resolver ()) = (Ok ips, s')
      \<and> tier_queries Root (trace s') \<le> 1
      \<and> tier_queries TLD (trace s') = 2 \<and> tier_queries Authoritative (trace s') = 2)"
proof -
  have t1: "2 \<le> length (splitInput ''gaia.cs.umass.edu'')" by (simp add: splitInput_def)
  have t2: "2 \<le> length (splitInput ''other.cs.umass.edu'')" by (simp add: splitInput_def)
  have same: "suffix ''gaia.cs.umass.edu'' 1 = suffix ''other.cs.umass.edu'' 1"
    by (simp add: suffix_def splitInput_def)
  have fh: "udp_fits (hang_message ''gaia.cs.umass.edu'')" "udp_fits (hang_message ''other.cs.umass.edu'')"
    "short_addr (hd [''8.8.8.8''])" by (simp_all add: fits_eval)
  have cs: "cache_short (cache (init_resolver ()))" by (simp add: cache_short_def init_resolver_def)
  show ?thesis
    using second_query_skips_root [OF demo_net_answers demo_net_answers _ t1 t2 same _ fh cs]
      demo_net_answers t1 t2 same fh cs
    by (simp add: init_resolver_def numeral_2_eq_2)
qed


section \<open>The root stage's entry on every outcome\<close>

lemma two_labels_dot: "2 \<le> length (splitInput d) \<Longrightarrow> CHR ''.'' \<in> set d"
  using splitInput_no_dot [of d] by fastforce

lemma suffix_2_dot: "2 \<le> length (splitInput d) \<Longrightarrow> CHR ''.'' \<in> set (suffix d 2)"
  using keys_two [of d] by (metis Un_iff insert_iff list.set(2) set_append)

lemma request_root_stored:
  assumes miss: "map_of (cache s) (suffix d 1) = None"
    and r: "fst (net (net_state s) Root (hd nss) d) = Some (py_str_list (ms @ [a]))"
    and sf: "safe_message a"
    and two: "2 \<le> length (splitInput d)" and ns: "nss \<noteq> []"
    and fh: "udp_fits (hang_message d)" and fn: "udp_fits (hd nss)"
    and run: "localDnsServer_request net nss d s = (res, s')"
  shows "map_of (cache s') (suffix d 1) = Some a"
proof -
  obtain l2 where u: "unpack2 (rev (splitInput d)) = Inr (suffix d (Suc 0), l2)"
    and k2: "l2 @ CHR ''.'' # suffix d (Suc 0) = suffix d 2"
    using two by (rule keys_two)
  have n0: "py_nth nss 0 = Inr (hd nss)"
    using ns by (simp add: py_nth_def hd_conv_nth)
  have d1: "suffix d 2 \<noteq> suffix d (Suc 0)"
    using suffix_2_dot [OF two] suffix_1_label [of d] by auto
  have d2: "d \<noteq> suffix d (Suc 0)"
    using two_labels_dot [OF two] suffix_1_label [of d] by auto
  let ?s0 = "s\<lparr>trace := trace s @ [ToClient (hang_message d)]\<rparr>"
  have r0: "fst (net (net_state ?s0) Root (hd nss) d) = Some (py_str_list (ms @ [a]))"
    using r by simp
  have fd: "udp_fits d" by (rule hang_message_fits [OF fh])
  show ?thesis
    using run miss
    by (auto simp: request_simps u k2 n0 fh gsh_reply [where net = net and s = ?s0, OF r0 sf fn fd]
        lift_sum_def d1 d2 d1 [symmetric] d2 [symmetric] send_client_def sendto_def
        split: prod.splits outcome.splits sum.splits if_splits dest!: gsh_cache)
qed


lemma request_root_hang:
  assumes miss: "map_of (cache s) (suffix d 1) = None"
    and r: "fst (net (net_state s) Root (hd nss) d) = None"
    and two: "2 \<le> length (splitInput d)" and ns: "nss \<noteq> []"
    and fh: "udp_fits (hang_message d)" and fn: "udp_fits (hd nss)"
  shows "localDnsServer_request net nss d s =
           (Hang, s\<lparr>net_state := snd (net (net_state s) Root (hd nss) d),
                    trace := trace s @ [ToClient (hang_message d), Query Root (hd nss) d]\<rparr>)"
proof -
  obtain l2 where u: "unpack2 (rev (splitInput d)) = Inr (suffix d (Suc 0), l2)"
    by (rule keys_two [OF two])
  have n0: "py_nth nss 0 = Inr (hd nss)"
    using ns by (simp add: py_nth_def hd_conv_nth)
  have fd: "udp_fits d" by (rule hang_message_fits [OF fh])
  show ?thesis
    using miss r by (simp add: request_simps u n0 fh fn fd gsh_noreply)
qed


section \<open>Which queries can raise\<close>

lemma request_ack_oversized:
  "\<not> udp_fits (hang_message d) \<Longrightarrow> localDnsServer_request net nss d s = (Raised OSError, s)"
  by (simp add: localDnsServer_request_def bind_prog_apply)

lemma request_ok_ack_fits: "localDnsServer_request net nss d s = (Ok ip, s') \<Longrightarrow> udp_fits (hang_message d)"
  by (rule ccontr) (simp add: request_ack_oversized)

lemma gsh_outcome:
  assumes run: "generalServerHandler net u ns t s = (r, s')" and nf: "net_fits net"
  shows "(\<exists>a. r = Ok a \<and> udp_fits a) \<or> r = Hang \<or> (r = Raised OSError \<and> (\<not> udp_fits ns \<or> \<not> udp_fits u))"
proof -
  have "(\<exists>a. r = Ok a) \<or> r = Hang \<or> (r = Raised OSError \<and> (\<not> udp_fits ns \<or> \<not> udp_fits u))"
    using run by (auto simp: generalServerHandler_def act_defs bind_prog_apply lift_sum_def Let_def
      getInputForNextServer_eq split: prod.splits option.splits outcome.splits sum.splits if_splits)
  then show ?thesis using gsh_fits [OF _ nf] run by blast
qed

lemma request_raised:
  assumes run: "localDnsServer_request net nss d s = (Raised e, s')"
    and nf: "net_fits net" and cf: "cache_fits (cache s)"
  shows "nss = [] \<or> length (splitInput d) < 2 \<or> \<not> udp_fits (hang_message d) \<or> \<not> udp_fits (hd nss)"
proof (rule ccontr)
  assume "\<not> (nss = [] \<or> length (splitInput d) < 2 \<or> \<not> udp_fits (hang_message d) \<or> \<not> udp_fits (hd nss))"
  then have ns: "nss \<noteq> []" and two: "2 \<le> length (splitInput d)"
    and fh: "udp_fits (hang_message d)" and fn: "udp_fits (hd nss)" by auto
  have fd: "udp_fits d" by (rule hang_message_fits [OF fh])
  obtain l2 where u: "unpack2 (rev (splitInput d)) = Inr (suffix d (Suc 0), l2)"
    by (rule keys_two [OF two])
  have n0: "py_nth nss 0 = Inr (hd nss)"
    using ns by (simp add: py_nth_def hd_conv_nth)
  show False
    using run fh fn fd
    by (auto simp: request_simps u n0 lift_sum_def send_client_def sendto_def
        split: prod.splits outcome.splits if_splits sum.splits
        dest!: gsh_outcome [OF _ nf] dest: cache_fits_get [OF cf])
qed

lemma loop_not_raised:
  "\<forall>u \<in> set us. 2 \<le> length (splitInput u) \<and> udp_fits (hang_message u) \<Longrightarrow> nss \<noteq> [] \<Longrightarrow>
   udp_fits (hd nss) \<Longrightarrow> net_fits net \<Longrightarrow> cache_fits (cache s) \<Longrightarrow>
   fst (localDnsServer_loop net nss us s) \<noteq> Raised e"
proof (induction us arbitrary: s)
  case Nil
  then show ?case by (simp add: ret_apply)
next
  case (Cons u us)
  have r: "\<And>e' s'. localDnsServer_request net nss u s \<noteq> (Raised e', s')"
    using request_raised Cons.prems by fastforce
  have cf: "cache_fits (cache (snd (localDnsServer_request net nss u s)))"
    using request_cache_fits [OF prod.collapse [symmetric] Cons.prems(4,5)] .
  show ?case
    using Cons.IH [of "snd (localDnsServer_request net nss u s)"] Cons.prems cf r
    by (cases "localDnsServer_request net nss u s")
       (auto simp: bind_prog_apply ret_apply split: outcome.splits prod.splits)
qed

text \<open>
  C25 (a query too long for its acknowledgement kills the resolver). When the
  acknowledgement \<^verbatim>\<open>Hang in there client, ... "d"\<close> does not fit in one UDP
  datagram (the query itself may: the acknowledgement is 57 bytes longer), its
  \<^verbatim>\<open>sendto\<close> raises OSError before anything is sent or cached, and the exception
  is not caught: the resolver process ends.
\<close>

theorem oversized_query_raises:
  assumes "\<not> udp_fits (hang_message d)"
  shows "localDnsServer_request net nss d s = (Raised OSError, s)"
  using assms by (rule request_ack_oversized)

theorem oversized_query_raises_witness:
  "\<not> udp_fits (hang_message (replicate 65451 CHR ''a'')) \<and>
   localDnsServer_request demo_net [''8.8.8.8''] (replicate 65451 CHR ''a'') (init_resolver ()) =
     (Raised OSError, init_resolver ())"
proof -
  have h: "\<not> udp_fits (hang_message (replicate 65451 CHR ''a''))"
    by (simp add: fits_eval sum_list_replicate)
  show ?thesis using h oversized_query_raises [OF h] by simp
qed

end
