(* ===== verification/Servers.thy ===== *)
theory Servers
  imports LocalResolver
begin

text \<open>
  The handlers of the simulated tier servers: \<^verbatim>\<open>findOutTld\<close> of
  \<^verbatim>\<open>src/rootDnsServer.py\<close>, \<^verbatim>\<open>findOutResultantIp\<close> of
  \<^verbatim>\<open>src/authoritativeDnsServer.py\<close>, and the TLD server's handler, whose source is
  not part of the repository (the resolver sends to \<^verbatim>\<open>TLD_SERVER_PORT\<close>); it is
  modelled from the spec as an oracle reply that ends in the authoritative server's
  address.

  dnspython is the external name-resolution oracle of the spec: the record
  \<open>dns_oracle\<close> gives the outcome of \<^verbatim>\<open>dns.name.from_text\<close>, of
  \<^verbatim>\<open>dns.query.udp(make_query(name, type), server)\<close> (a response with its rcode and
  its authority and answer sections, or \<open>None\<close> when the call raises or never
  returns: it has no timeout), and of an A lookup through the default resolver.
  Each handler is a function into \<open>py_error + string list\<close>, with every raise of the
  source (an oracle failure, an empty section indexed at 0, \<^verbatim>\<open>.target\<close> of a record
  without one) as an \<open>Inl\<close>.

  The lemmas classify the last message of each handler's reply (the one the resolver
  takes as the next address): an address from the oracle, or a diagnostic such as
  \<open>Please enter a legible domain\<close>.
\<close>

section \<open>The dnspython oracle\<close>

datatype rcode = NOERROR | NXDOMAIN | OtherRcode

datatype rdtype = SOA | NS | A | CNAME | OtherType

record resource_record =
  rdtype :: rdtype
  rdata :: string   \<comment> \<open>\<^verbatim>\<open>str(rr)\<close>: the target name of NS and CNAME records, the address of A records\<close>

record dns_response =
  resp_rcode :: rcode
  authority :: "resource_record list list"
  answer :: "resource_record list list"

record dns_oracle =
  name_ok :: "string \<Rightarrow> bool"
  udp_query :: "string \<Rightarrow> rdtype \<Rightarrow> address \<Rightarrow> dns_response option"
  resolve_a :: "string \<Rightarrow> address option"
  tld_reply :: "address \<Rightarrow> domain \<Rightarrow> string list option"

section \<open>Helpers for the handlers\<close>

definition dq :: "string \<Rightarrow> string" where
  "dq s = CHR 0x22 # s @ [CHR 0x22]"

definition oracle_call :: "'a option \<Rightarrow> py_error + 'a" where
  "oracle_call r = (case r of None \<Rightarrow> Inl DnsError | Some x \<Rightarrow> Inr x)"

text \<open>\<^verbatim>\<open>resourceRecord.target\<close>: only NS and CNAME records have one.\<close>

definition rr_target :: "resource_record \<Rightarrow> py_error + string" where
  "rr_target rr = (if rdtype rr = NS \<or> rdtype rr = CNAME then Inr (rdata rr) else Inl AttributeError)"

definition legible_nxdomain :: "string \<Rightarrow> string list" where
  "legible_nxdomain name = [dq name @ '' does not exist.'', ''Please enter a legible domain'']"

section \<open>rootDnsServer.findOutTld\<close>

definition findOutTld :: "dns_oracle \<Rightarrow> string \<Rightarrow> address \<Rightarrow> py_error + string list" where
  "findOutTld orc userInput localNameServer =
     (if \<not> name_ok orc userInput then Inl DnsError else
      bind_sum (getInput userInput 1) (\<lambda>rootInput.
      let returnMessage =
            [''I dont know the address of '' @ dq userInput @ '' but I know the address of '' @ dq rootInput,
             ''Looking up '' @ dq rootInput @ '' on '' @ dq localNameServer]
      in bind_sum (oracle_call (udp_query orc rootInput NS localNameServer)) (\<lambda>response.
      if resp_rcode response \<noteq> NOERROR then
        (if resp_rcode response = NXDOMAIN then Inr (returnMessage @ legible_nxdomain rootInput)
         else Inr (returnMessage @ [''Please enter a legible domain.'']))
      else
      bind_sum (if authority response \<noteq> [] then py_nth (authority response) 0
                else py_nth (answer response) 0) (\<lambda>resourceRecordSet.
      bind_sum (py_nth resourceRecordSet 0) (\<lambda>resourceRecord.
      if rdtype resourceRecord = SOA then
        Inr (returnMessage @ [''Same server is TLD Server for '' @ dq rootInput])
      else
      bind_sum (rr_target resourceRecord) (\<lambda>tldServerName.
      bind_sum (oracle_call (resolve_a orc tldServerName)) (\<lambda>ipAddressofTld.
      Inr (returnMessage @
           [dq tldServerName @ '' is TLD Server for '' @ dq rootInput,
            ''IP Address of '' @ dq tldServerName @ '' is '' @ dq ipAddressofTld,
            tldServerName, ipAddressofTld]))))))))"

section \<open>authoritativeDnsServer.findOutResultantIp\<close>

definition findOutResultantIp :: "dns_oracle \<Rightarrow> string \<Rightarrow> address \<Rightarrow> py_error + string list" where
  "findOutResultantIp orc userInput nameServer =
     (if \<not> name_ok orc userInput then Inl DnsError else
      bind_sum (getInput userInput (length (splitInput userInput))) (\<lambda>authoritativeInput.
      let returnMessage = [''Looking up '' @ dq authoritativeInput @ '' on '' @ dq nameServer];
          refetch = dq userInput @ '' requires another Authoritative Server Call, fetching it directly''
      in bind_sum (oracle_call (udp_query orc authoritativeInput A nameServer)) (\<lambda>response.
      if resp_rcode response \<noteq> NOERROR then
        (if resp_rcode response = NXDOMAIN then Inr (returnMessage @ legible_nxdomain authoritativeInput)
         else Inr (returnMessage @ [''Please enter a legible domain.'']))
      else
      bind_sum
        (if answer response \<noteq> [] then
           bind_sum (py_nth (hd (answer response)) 0) (\<lambda>resourceRecord.
           if rdtype resourceRecord \<noteq> A then
             bind_sum (oracle_call (resolve_a orc userInput)) (\<lambda>ip. Inr ([refetch], ip))
           else Inr ([], rdata resourceRecord))
         else bind_sum (oracle_call (resolve_a orc userInput)) (\<lambda>ip. Inr ([refetch], ip)))
        (\<lambda>(extra, finalIPAddress).
      Inr (returnMessage @ extra @
           [''IP address of the '' @ dq userInput @ '' is '' @ dq finalIPAddress, finalIPAddress])))))"

section \<open>The TLD server (modelled from the spec)\<close>

definition tld_handler :: "dns_oracle \<Rightarrow> string \<Rightarrow> address \<Rightarrow> py_error + string list" where
  "tld_handler orc userInput nameServer = oracle_call (tld_reply orc nameServer userInput)"

text \<open>The handler behind each tier's port.\<close>

definition tier_handler :: "dns_oracle \<Rightarrow> tier \<Rightarrow> string \<Rightarrow> address \<Rightarrow> py_error + string list" where
  "tier_handler orc t =
     (case t of Root \<Rightarrow> findOutTld orc | TLD \<Rightarrow> tld_handler orc | Authoritative \<Rightarrow> findOutResultantIp orc)"

section \<open>Example oracles\<close>

text \<open>
  The oracle of the spec's scenario: every NS query is delegated to
  \<open>a.edu-servers.net.\<close>, whose address is \<open>192.5.6.30\<close>; every A query is answered
  with \<open>128.119.245.12\<close>; the TLD server answers with the authoritative server
  \<open>128.119.40.186\<close>. \<open>nx_oracle\<close> answers every query with NXDOMAIN, \<open>auth_nx_oracle\<close> only
  the A queries, and
  \<open>crash_oracle\<close> cannot resolve the TLD server's name.
\<close>

definition demo_oracle :: dns_oracle where
  "demo_oracle =
     \<lparr>name_ok = (\<lambda>_. True),
      udp_query = (\<lambda>q ty ns.
        if ty = NS then Some \<lparr>resp_rcode = NOERROR,
                              authority = [[\<lparr>rdtype = NS, rdata = ''a.edu-servers.net.''\<rparr>]], answer = []\<rparr>
        else if ty = A then Some \<lparr>resp_rcode = NOERROR, authority = [],
                                  answer = [[\<lparr>rdtype = A, rdata = ''128.119.245.12''\<rparr>]]\<rparr>
        else None),
      resolve_a = (\<lambda>n. if n = ''a.edu-servers.net.'' then Some ''192.5.6.30'' else None),
      tld_reply = (\<lambda>ns u. Some [''Found the authoritative server'', ''128.119.40.186''])\<rparr>"

definition nx_oracle :: dns_oracle where
  "nx_oracle = demo_oracle\<lparr>udp_query := (\<lambda>q ty ns.
     Some \<lparr>resp_rcode = NXDOMAIN, authority = [], answer = []\<rparr>)\<rparr>"

definition auth_nx_oracle :: dns_oracle where
  "auth_nx_oracle = demo_oracle\<lparr>udp_query := (\<lambda>q ty ns.
     if ty = NS then udp_query demo_oracle q ty ns
     else Some \<lparr>resp_rcode = NXDOMAIN, authority = [], answer = []\<rparr>)\<rparr>"

definition crash_oracle :: dns_oracle where
  "crash_oracle = demo_oracle\<lparr>resolve_a := (\<lambda>n. None)\<rparr>"

section \<open>Lemmas\<close>

lemma getInput_1 [simp]: "getInput d (Suc 0) = Inr (suffix d (Suc 0) @ ''.'')"
  by (simp add: getInput_eq Suc_le_eq)

lemmas handler_simps = bind_sum_def oracle_call_def rr_target_def legible_nxdomain_def Let_def

text \<open>
  C16 (what the root server's reply ends in). Whenever \<^verbatim>\<open>findOutTld\<close> returns, its
  message list is non-empty and its last message, the one the resolver takes as the TLD
  server's address, is one of the two diagnostics for a failed NS query, the SOA
  diagnostic, or an address the oracle gave for some name: never a name or an earlier
  status message.
\<close>

theorem findOutTld_payload:
  "findOutTld orc d ns = Inr ms \<Longrightarrow>
   ms \<noteq> [] \<and>
   (last ms \<in> {''Please enter a legible domain'', ''Please enter a legible domain.'',
               ''Same server is TLD Server for '' @ dq (suffix d 1 @ ''.'')}
    \<or> (\<exists>tgt. resolve_a orc tgt = Some (last ms)))"
  by (auto simp: findOutTld_def handler_simps split: if_splits sum.splits option.splits)

text \<open>
  C17 (what the authoritative server's reply ends in). Whenever
  \<^verbatim>\<open>findOutResultantIp\<close> returns, its message list is non-empty and its last message,
  the one the resolver returns to the client as the final address, is a diagnostic of a
  failed A query, the oracle's own address for the domain (the fallback lookup), or the
  data of the first record of the first answer set when that record is an A record.
\<close>

theorem findOutResultantIp_payload:
  "findOutResultantIp orc d ns = Inr ms \<Longrightarrow>
   ms \<noteq> [] \<and>
   (last ms \<in> {''Please enter a legible domain'', ''Please enter a legible domain.''}
    \<or> resolve_a orc d = Some (last ms)
    \<or> (\<exists>r. udp_query orc (d @ ''.'') A ns = Some r \<and> answer r \<noteq> [] \<and> hd (answer r) \<noteq> []
             \<and> rdtype (hd (answer r) ! 0) = A \<and> rdata (hd (answer r) ! 0) = last ms))"
  by (auto simp: findOutResultantIp_def handler_simps getInput_full py_nth_def
      split: if_splits sum.splits option.splits)

lemma findOutTld_nxdomain:
  "name_ok orc d \<Longrightarrow> udp_query orc (suffix d 1 @ ''.'') NS ns = Some r \<Longrightarrow> resp_rcode r = NXDOMAIN \<Longrightarrow>
   \<exists>ms. findOutTld orc d ns = Inr (ms @ [''Please enter a legible domain''])"
  by (simp add: findOutTld_def handler_simps)

lemma findOutResultantIp_nxdomain:
  "name_ok orc d \<Longrightarrow> udp_query orc (d @ ''.'') A ns = Some r \<Longrightarrow> resp_rcode r = NXDOMAIN \<Longrightarrow>
   \<exists>ms. findOutResultantIp orc d ns = Inr (ms @ [''Please enter a legible domain''])"
  by (simp add: findOutResultantIp_def handler_simps getInput_full)

lemma demo_oracle_handlers:
  "\<forall>t ns. safe_message (demo_ask t ns) \<and>
     (\<exists>ms. tier_handler demo_oracle t d ns = Inr (ms @ [demo_ask t ns]))"
proof (intro allI)
  fix t ns
  show "safe_message (demo_ask t ns) \<and> (\<exists>ms. tier_handler demo_oracle t d ns = Inr (ms @ [demo_ask t ns]))"
    by (cases t) (simp_all add: tier_handler_def findOutTld_def findOutResultantIp_def tld_handler_def
        demo_oracle_def demo_ask_def handler_simps getInput_full safe_message_def py_isprintable_def)
qed

lemma demo_oracle_reply_fits:
  assumes h: "tier_handler demo_oracle t d ns = Inr ms" and d: "length d \<le> 1000" and sn: "short_addr ns"
  shows "udp_fits (py_str_list ms)"
proof (rule py_str_list_fits)
  have n: "length ns \<le> 255" using sn utf8_length_bounds(1) [of ns] by (simp add: short_addr_def)
  have s1: "length (suffix d (Suc 0)) \<le> length d" by (rule length_suffix_le)
  show "sum_list (map (\<lambda>m. 4 * length m + 4) ms) \<le> 32750"
    using h d n s1
    by (cases t) (auto simp: tier_handler_def findOutTld_def findOutResultantIp_def tld_handler_def
        demo_oracle_def handler_simps getInput_full dq_def)
qed

lemma demo_oracle_answers:
  assumes d: "length d \<le> 1000"
  shows "\<forall>t ns. short_addr ns \<longrightarrow> safe_message (demo_ask t ns) \<and> short_addr (demo_ask t ns) \<and>
     (\<exists>ms. tier_handler demo_oracle t d ns = Inr (ms @ [demo_ask t ns])
        \<and> udp_fits (py_str_list (ms @ [demo_ask t ns])))"
proof (intro allI impI)
  fix t ns
  assume sn: "short_addr ns"
  obtain ms where h: "tier_handler demo_oracle t d ns = Inr (ms @ [demo_ask t ns])"
    and sf: "safe_message (demo_ask t ns)"
    using demo_oracle_handlers by blast
  have "short_addr (demo_ask t ns)" by (cases t) (simp_all add: demo_ask_def fits_eval)
  with h sf demo_oracle_reply_fits [OF h d sn] show "safe_message (demo_ask t ns) \<and> short_addr (demo_ask t ns) \<and>
     (\<exists>ms. tier_handler demo_oracle t d ns = Inr (ms @ [demo_ask t ns])
        \<and> udp_fits (py_str_list (ms @ [demo_ask t ns])))" by blast
qed

lemma safe_legible: "safe_message ''Please enter a legible domain''"
  by (simp add: safe_message_def py_isprintable_def)

theorem findOutTld_payload_witness:
  "\<exists>ms. findOutTld demo_oracle ''gaia.cs.umass.edu'' ''198.41.0.4'' = Inr ms \<and> ms \<noteq> [] \<and>
        (\<exists>tgt. resolve_a demo_oracle tgt = Some (last ms))"
proof -
  obtain ms where f: "findOutTld demo_oracle ''gaia.cs.umass.edu'' ''198.41.0.4'' = Inr (ms @ [''192.5.6.30''])"
    using demo_oracle_handlers [rule_format, of Root] by (auto simp: tier_handler_def demo_ask_def)
  have "last (ms @ [''192.5.6.30'']) \<notin> {''Please enter a legible domain'', ''Please enter a legible domain.'',
          ''Same server is TLD Server for '' @ dq (suffix ''gaia.cs.umass.edu'' 1 @ ''.'')}"
    by (simp add: dq_def)
  with findOutTld_payload [OF f] f show ?thesis by blast
qed

theorem findOutResultantIp_payload_witness:
  "\<exists>ms. findOutResultantIp demo_oracle ''gaia.cs.umass.edu'' ''128.119.40.186'' = Inr ms \<and> ms \<noteq> [] \<and>
        last ms = ''128.119.245.12''"
proof -
  obtain ms where f: "findOutResultantIp demo_oracle ''gaia.cs.umass.edu'' ''128.119.40.186'' =
      Inr (ms @ [''128.119.245.12''])"
    using demo_oracle_handlers [rule_format, of Authoritative] by (auto simp: tier_handler_def demo_ask_def)
  then show ?thesis using findOutResultantIp_payload [OF f] by auto
qed

end
