(* ===== verification/ResolverRuns.thy ===== *)
theory ResolverRuns
  imports LocalResolver
begin

text \<open>
  Properties of whole runs of the resolver of \<^verbatim>\<open>src/localDnsServer.py\<close> (theory
  \<open>LocalResolver\<close>) that hold over any network: how much one iteration of its loop can
  add to the cache and to the datagram trace, that it returns when every tier replies
  (the interface \<open>net_replies\<close>, weaker than \<open>net_answers\<close>: any reply will do), that
  the loop over a list of queries then returns one address per query, and that
  every cached address is one comma-free, quote-free piece of a reply (\<open>cache_wf\<close>).
  It also orders the datagrams of an iteration (\<open>event_tiers\<close>: the acknowledgement,
  the tiers in increasing order, the answer) and shows that the cache keys keep their
  insertion order along any run.
\<close>

text \<open>
  The address the resolver takes from a tier's reply, and the interface \<open>net_replies\<close>:
  in every network state satisfying \<open>P\<close>, each tier replies to a query for \<open>d\<close> at a
  DNS-sized name server, the address taken from the reply is DNS-sized, and the network
  stays in \<open>P\<close>.
\<close>

definition reply_of :: "'n net \<Rightarrow> 'n \<Rightarrow> tier \<Rightarrow> address \<Rightarrow> domain \<Rightarrow> address" where
  "reply_of net n t ns d = clean_message (last (parse_reply (the (fst (net n t ns d)))))"

definition net_replies :: "'n net \<Rightarrow> ('n \<Rightarrow> bool) \<Rightarrow> domain \<Rightarrow> bool" where
  "net_replies net P d =
     (\<forall>n t ns. P n \<longrightarrow> short_addr ns \<longrightarrow>
        fst (net n t ns d) \<noteq> None \<and> short_addr (reply_of net n t ns d) \<and> P (snd (net n t ns d)))"

definition wf_addr :: "string \<Rightarrow> bool" where
  "wf_addr v = (CHR '','' \<notin> set v \<and> CHR 0x27 \<notin> set v)"

definition cache_wf :: "(string \<times> address) list \<Rightarrow> bool" where
  "cache_wf c = (\<forall>v \<in> ran (map_of c). wf_addr v)"

text \<open>The tiers a trace contacts, in order: both a full query and a stray name server count.\<close>

fun event_tiers :: "event list \<Rightarrow> tier list" where
  "event_tiers [] = []"
| "event_tiers (Query t _ _ # tr) = t # event_tiers tr"
| "event_tiers (Stray t _ # tr) = t # event_tiers tr"
| "event_tiers (ToClient _ # tr) = event_tiers tr"

lemma length_update_le: "length (AList.update k v c) \<le> Suc (length c)"
  by (induction c) auto

lemma gsh_trace:
  "generalServerHandler net u ns t s = (r, s') \<Longrightarrow>
   trace s' = trace s @ (if \<not> udp_fits ns then [] else if \<not> udp_fits u then [Stray t ns] else [Query t ns u])"
  by (auto simp: generalServerHandler_def act_defs bind_prog_apply lift_sum_def Let_def
      split: prod.splits option.splits outcome.splits sum.splits if_splits)

lemma request_cache_length:
  assumes run: "localDnsServer_request net nss d s = (r, s')"
  shows "length (cache s') \<le> length (cache s) + 3"
proof (cases "2 \<le> length (splitInput d)")
  case False
  with run show ?thesis
    by (auto simp: request_split_simps unpack2_short split: sum.splits)
next
  case True
  then obtain l2 where u: "unpack2 (rev (splitInput d)) = Inr (suffix d (Suc 0), l2)"
    by (rule keys_two)
  have le: "length (AList.update k v c) \<le> n" if "Suc (length c) \<le> n" for k v c and n :: nat
    using length_update_le [of k v c] that by linarith
  show ?thesis
    using run
    by (auto simp: request_split_simps u intro!: le
        split: prod.splits outcome.splits sum.splits if_splits dest!: gsh_cache fetch_state)
qed

lemma request_trace_bound:
  assumes run: "localDnsServer_request net nss d s = (r, s')"
  shows "length (trace s') \<le> length (trace s) + 5 \<and> tier_queries t (trace s') \<le> tier_queries t (trace s) + 1"
proof (cases "2 \<le> length (splitInput d)")
  case False
  with run show ?thesis
    by (auto simp: request_split_simps unpack2_short split: sum.splits if_splits)
next
  case True
  then obtain l2 where u: "unpack2 (rev (splitInput d)) = Inr (suffix d (Suc 0), l2)"
    by (rule keys_two)
  show ?thesis
    using run
    by (auto simp: request_split_simps u tier_queries_def
        split: prod.splits outcome.splits sum.splits if_splits dest!: gsh_trace fetch_state)
qed

lemma event_tiers_append [simp]: "event_tiers (xs @ ys) = event_tiers xs @ event_tiers ys"
  by (induction xs rule: event_tiers.induct) simp_all

lemma tier_order [simp]: "Root < TLD" "TLD < Authoritative" "Root < Authoritative"
  by (simp_all add: less_tier_def ROOT_SERVER_PORT_def TLD_SERVER_PORT_def AUTHORITATIVE_SERVER_PORT_def)

lemma prefix_keys_update: "prefix xs (map fst c) \<Longrightarrow> prefix xs (map fst (AList.update k v c))"
proof -
  have "prefix (map fst c) (map fst (AList.update k v c))" by (induction c) auto
  then show "prefix xs (map fst c) \<Longrightarrow> prefix xs (map fst (AList.update k v c))"
    by (rule prefix_order.trans [rotated])
qed

lemma request_keys_prefix:
  assumes run: "localDnsServer_request net nss d s = (r, s')"
  shows "prefix (map fst (cache s)) (map fst (cache s'))"
proof (cases "2 \<le> length (splitInput d)")
  case False
  with run show ?thesis
    by (auto simp: request_split_simps unpack2_short split: sum.splits)
next
  case True
  then obtain l2 where u: "unpack2 (rev (splitInput d)) = Inr (suffix d (Suc 0), l2)"
    by (rule keys_two)
  show ?thesis
    using run
    by (auto simp: request_split_simps u intro!: prefix_keys_update
        split: prod.splits outcome.splits sum.splits if_splits dest!: gsh_cache fetch_state)
qed

lemma gsh_replies:
  assumes "net_replies net P d" and "P (net_state s)" and sn: "short_addr ns" and fd: "udp_fits d"
  shows "generalServerHandler net d ns t s =
           (Ok (reply_of net (net_state s) t ns d),
            s\<lparr>net_state := snd (net (net_state s) t ns d), trace := trace s @ [Query t ns d]\<rparr>)"
proof -
  from assms obtain m where r: "fst (net (net_state s) t ns d) = Some m"
    unfolding net_replies_def by blast
  then show ?thesis
    by (simp add: generalServerHandler_def act_sent [OF short_addr_fits [OF sn] fd] bind_prog_apply
        lift_sum_def getInputForNextServer_eq reply_of_def)
qed

lemma net_replies_P: "net_replies net P d \<Longrightarrow> P n \<Longrightarrow> short_addr ns \<Longrightarrow> P (snd (net n t ns d))"
  by (simp add: net_replies_def)

lemma net_replies_short:
  "net_replies net P d \<Longrightarrow> P n \<Longrightarrow> short_addr ns \<Longrightarrow> short_addr (reply_of net n t ns d)"
  by (simp add: net_replies_def)

lemma request_completes:
  assumes rep: "net_replies net P d" and P: "P (net_state s)"
    and two: "2 \<le> length (splitInput d)" and ns: "nss \<noteq> []"
    and fh: "udp_fits (hang_message d)" and fn: "short_addr (hd nss)" and cs: "cache_short (cache s)"
  shows "\<exists>ip s'. localDnsServer_request net nss d s = (Ok ip, s') \<and> P (net_state s') \<and> cache_short (cache s')"
proof -
  obtain l2 where u: "unpack2 (rev (splitInput d)) = Inr (suffix d (Suc 0), l2)"
    by (rule keys_two [OF two])
  have n0: "py_nth nss 0 = Inr (hd nss)"
    using ns by (simp add: py_nth_def hd_conv_nth)
  have fd: "udp_fits d" by (rule hang_message_fits [OF fh])
  note gsh = gsh_replies [OF rep _ _ fd]
  note sr = net_replies_short [OF rep] net_replies_P [OF rep]
  show ?thesis
  proof (cases "map_of (cache s) (suffix d 1)")
    case None
    with P fn cs show ?thesis
      by (simp add: request_simps u n0 fh gsh sr short_addr_fits cache_short_update)
  next
    case (Some a)
    have "short_addr a" using cache_short_get [OF cs] Some by simp
    with Some P cs show ?thesis
      by (simp add: request_simps u n0 fh gsh sr short_addr_fits cache_short_update)
  qed
qed

lemma py_split_piece: "x \<in> set (py_split c s) \<Longrightarrow> c \<notin> set x"
proof (induction s arbitrary: x)
  case Nil
  then show ?case by simp
next
  case (Cons a s)
  have h: "c \<notin> set (hd (py_split c s))" and t: "\<forall>y \<in> set (tl (py_split c s)). c \<notin> set y"
    using Cons.IH by (cases "py_split c s"; simp)+
  show ?case
    using Cons.prems Cons.IH h t by (auto simp: Let_def split: if_splits)
qed

lemma py_strip_subset: "set (py_strip P s) \<subseteq> set s"
  unfolding py_strip_def by (auto dest!: set_dropWhileD)

lemma parse_reply_last_piece: "CHR '','' \<notin> set (last (parse_reply m))"
  unfolding parse_reply_def by (metis py_split_piece last_in_set py_split_not_Nil)

lemma clean_message_wf: "CHR '','' \<notin> set m \<Longrightarrow> wf_addr (clean_message m)"
  using py_strip_subset [of py_isspace m] by (auto simp: clean_message_def wf_addr_def)

lemma gsh_wf: "generalServerHandler net u ns t s = (Ok a, s') \<Longrightarrow> wf_addr a"
  by (auto simp: generalServerHandler_def act_defs bind_prog_apply lift_sum_def Let_def
      getInputForNextServer_eq parse_reply_last_piece intro!: clean_message_wf split: prod.splits option.splits outcome.splits sum.splits if_splits)

lemma cache_wf_update: "cache_wf c \<Longrightarrow> wf_addr v \<Longrightarrow> cache_wf (AList.update k v c)"
  by (auto simp: cache_wf_def update_conv' ran_def split: if_splits)

lemma cache_wf_fetch: "cache_wf c \<Longrightarrow> map_of c k = Some v \<Longrightarrow> wf_addr v"
  by (auto simp: cache_wf_def intro: ranI)

lemma gsh_out:
  "generalServerHandler net u ns t s = (r, s') \<Longrightarrow> cache s' = cache s \<and> (\<forall>a. r = Ok a \<longrightarrow> wf_addr a)"
  using gsh_wf gsh_cache by blast

lemma request_cache_wf:
  assumes run: "localDnsServer_request net nss d s = (r, s')" and wf: "cache_wf (cache s)"
  shows "cache_wf (cache s')"
proof (cases "2 \<le> length (splitInput d)")
  case False
  with run wf show ?thesis
    by (auto simp: request_split_simps unpack2_short split: sum.splits)
next
  case True
  then obtain l2 where u: "unpack2 (rev (splitInput d)) = Inr (suffix d (Suc 0), l2)"
    by (rule keys_two)
  show ?thesis
    using run wf
    by (auto simp: request_split_simps u intro!: cache_wf_update intro: cache_wf_fetch
        split: prod.splits outcome.splits sum.splits if_splits dest!: gsh_out fetch_out)
qed

lemma loop_completes:
  "\<forall>u \<in> set us. net_replies net P u \<and> 2 \<le> length (splitInput u) \<and> udp_fits (hang_message u) \<Longrightarrow>
   P (net_state s) \<Longrightarrow> nss \<noteq> [] \<Longrightarrow> short_addr (hd nss) \<Longrightarrow> cache_short (cache s) \<Longrightarrow>
   \<exists>ips s'. localDnsServer_loop net nss us s = (Ok ips, s') \<and> length ips = length us \<and> P (net_state s')"
proof (induction us arbitrary: s)
  case Nil
  then show ?case by (simp add: ret_apply)
next
  case (Cons u us)
  then obtain ip s1 where r1: "localDnsServer_request net nss u s = (Ok ip, s1)" and p1: "P (net_state s1)"
    and cs1: "cache_short (cache s1)"
    using request_completes by (metis list.set_intros(1))
  from Cons.IH [OF _ p1 _ _ cs1] Cons.prems obtain ips s' where
    r2: "localDnsServer_loop net nss us s1 = (Ok ips, s')" "length ips = length us" "P (net_state s')"
    by auto
  then show ?case using r1 by (simp add: bind_prog_apply ret_apply)
qed

lemma demo_net_replies: "net_replies demo_net (\<lambda>_. True) d"
  unfolding net_replies_def
proof (intro allI impI conjI)
  fix n t ns
  have "reply_of demo_net n t ns d = demo_ask t ns"
    using getInputForNextServer_encoded [of "[''looked up'', demo_ask t ns]"]
    by (cases t) (simp_all add: reply_of_def demo_net_def getInputForNextServer_eq demo_ask_def
        safe_message_def py_isprintable_def)
  then show "short_addr (reply_of demo_net n t ns d)"
    by (cases t) (simp_all add: demo_ask_def fits_eval)
qed (simp_all add: demo_net_def)

lemma reachable_cache_fits:
  "resolver_reachable net nss s \<Longrightarrow> net_fits net \<Longrightarrow> cache_fits (cache s)"
proof (induction rule: resolver_reachable.induct)
  case (start n)
  then show ?case by (simp add: init_resolver_def cache_fits_def)
next
  case (serve s d ip s')
  then show ?case by (blast intro: request_cache_fits)
qed

lemma reachable_cache_wf_run: "resolver_reachable net nss s \<Longrightarrow> cache_wf (cache s)"
proof (induction rule: resolver_reachable.induct)
  case (start n)
  then show ?case by (simp add: init_resolver_def cache_wf_def)
next
  case (serve s d ip s')
  then show ?case by (blast intro: request_cache_wf)
qed

text \<open>
  C20 (per-iteration bounds). One iteration of the resolver's loop, whatever its
  outcome, adds at most three keys to the cache (the three suffixes), sends at most five
  datagram events (the acknowledgement, three tier queries, the answer), and queries each
  tier at most once.
\<close>

theorem request_bounds:
  assumes run: "localDnsServer_request net nss d s = (r, s')"
  shows "length (cache s') \<le> length (cache s) + 3 \<and> length (trace s') \<le> length (trace s) + 5
         \<and> (\<forall>t. tier_queries t (trace s') \<le> tier_queries t (trace s) + 1)"
  using request_cache_length [OF run] request_trace_bound [OF run] by blast

theorem request_bounds_witness:
  "length (cache (snd (localDnsServer_request demo_net [''8.8.8.8''] ''gaia.cs.umass.edu'' (init_resolver ()))))
     \<le> 3 \<and>
   length (trace (snd (localDnsServer_request demo_net [''8.8.8.8''] ''gaia.cs.umass.edu'' (init_resolver ()))))
     \<le> 5"
proof -
  obtain r s' where run: "localDnsServer_request demo_net [''8.8.8.8''] ''gaia.cs.umass.edu'' (init_resolver ()) =
      (r, s')" by fastforce
  from request_bounds [OF run] run show ?thesis by (simp add: init_resolver_def)
qed

text \<open>
  C22 (the cache keeps its insertion order). A Python dict iterates in insertion order
  and an assignment to a key already present keeps its place. Over any run of the
  resolver's loop, whatever its outcome, the keys of the cache at the start are a
  prefix of the keys at the end: the dict \<^verbatim>\<open>customPrint("cache", cache)\<close> shows
  after each query lists the older entries first, in the order they were made.
\<close>

theorem cache_keys_keep_order:
  "localDnsServer_loop net nss us s = (r, s') \<Longrightarrow> prefix (map fst (cache s)) (map fst (cache s'))"
proof (induction us arbitrary: s r s')
  case Nil
  then show ?case by (simp add: ret_apply)
next
  case (Cons u us)
  obtain r1 s1 where run: "localDnsServer_request net nss u s = (r1, s1)" by fastforce
  have p1: "prefix (map fst (cache s)) (map fst (cache s1))" by (rule request_keys_prefix [OF run])
  show ?case
  proof (cases r1)
    case (Ok ip)
    obtain r2 s2 where run2: "localDnsServer_loop net nss us s1 = (r2, s2)" by fastforce
    have "s' = s2" using Cons.prems run run2 Ok
      by (cases r2) (simp_all add: bind_prog_apply ret_apply)
    then show ?thesis using Cons.IH [OF run2] p1 by (blast intro: prefix_order.trans)
  qed (use Cons.prems run p1 in \<open>simp_all add: bind_prog_apply\<close>)
qed

theorem cache_keys_keep_order_witness:
  "prefix [''edu''] (map fst (cache (snd (localDnsServer_loop demo_net [''8.8.8.8''] [''gaia.cs.umass.edu'', ''www.umass.edu'']
     ((init_resolver ())\<lparr>cache := [(''edu'', ''192.5.6.30'')]\<rparr>)))))"
  using cache_keys_keep_order [OF prod.collapse [symmetric], where net = demo_net and nss = "[''8.8.8.8'']"
      and us = "[''gaia.cs.umass.edu'', ''www.umass.edu'']"
      and s = "(init_resolver ())\<lparr>cache := [(''edu'', ''192.5.6.30'')]\<rparr>"]
  by simp

text \<open>
  C21 (the tiers are consulted in order). In one iteration of the resolver's loop,
  whatever its outcome, the datagrams sent extend the trace; the first of them is the
  acknowledgement to the client, the tiers they reach come in strictly increasing order
  (root, TLD, authoritative, each at most once, the root skipped on a cache hit), and
  when the iteration returns an address the last datagram is that address to the client.
\<close>

theorem request_tiers_in_order:
  assumes run: "localDnsServer_request net nss d s = (r, s')"
  shows "\<exists>ev. trace s' = trace s @ ev \<and> sorted_wrt (<) (event_tiers ev)
           \<and> (ev \<noteq> [] \<longrightarrow> hd ev = ToClient (hang_message d))
           \<and> (\<forall>ip. r = Ok ip \<longrightarrow> last ev = ToClient ip)"
proof (cases "2 \<le> length (splitInput d)")
  case False
  with run show ?thesis
    by (auto simp: request_split_simps unpack2_short split: sum.splits if_splits)
next
  case True
  then obtain l2 where u: "unpack2 (rev (splitInput d)) = Inr (suffix d (Suc 0), l2)"
    by (rule keys_two)
  show ?thesis
    using run
    by (auto simp: request_split_simps u
        split: prod.splits outcome.splits sum.splits if_splits dest!: gsh_trace fetch_state)
qed

theorem request_tiers_in_order_witness:
  "sorted_wrt (<) (event_tiers (trace (snd (localDnsServer_request demo_net [''8.8.8.8''] ''gaia.cs.umass.edu''
     (init_resolver ())))))"
proof -
  obtain r s' where run: "localDnsServer_request demo_net [''8.8.8.8''] ''gaia.cs.umass.edu'' (init_resolver ()) =
      (r, s')" by fastforce
  from request_tiers_in_order [OF run] run show ?thesis by (auto simp: init_resolver_def)
qed

text \<open>
  C23 (the cache holds well-formed addresses). In every state the resolver process
  reaches, every address in the cache is free of commas and single quotes: it is one
  piece of a reply split at the commas, with the quotes removed, or a value fetched from
  the cache itself.
\<close>

theorem reachable_cache_wf: "resolver_reachable net nss s \<Longrightarrow> cache_wf (cache s)"
  by (rule reachable_cache_wf_run)

theorem reachable_cache_wf_witness:
  "\<exists>s. resolver_reachable demo_net [''8.8.8.8''] s \<and> cache s \<noteq> [] \<and> wf_addr (snd (hd (cache s)))"
proof -
  have two: "2 \<le> length (splitInput ''gaia.cs.umass.edu'')" by (simp add: splitInput_def)
  have fh: "udp_fits (hang_message ''gaia.cs.umass.edu'')" "short_addr (hd [''8.8.8.8''])"
    by (simp_all add: fits_eval)
  have cs: "cache_short (cache (init_resolver ()))" by (simp add: cache_short_def init_resolver_def)
  obtain ip s' where run: "localDnsServer_request demo_net [''8.8.8.8''] ''gaia.cs.umass.edu'' (init_resolver ()) =
      (Ok ip, s')"
    using request_completes [OF demo_net_replies _ two _ fh cs] by auto
  have r: "resolver_reachable demo_net [''8.8.8.8''] s'"
    by (rule resolver_reachable.serve [OF resolver_reachable.start run])
  have ne: "cache s' \<noteq> []"
    using request_dom_mono run keys_two [OF two] by (auto simp: request_split_simps init_resolver_def
        split: prod.splits outcome.splits sum.splits if_splits)
  have wf: "cache_wf (cache s')" by (rule reachable_cache_wf [OF r])
  have "wf_addr (snd (hd (cache s')))"
    using ne cache_wf_fetch [OF wf, of "fst (hd (cache s'))"] by (cases "cache s'") auto
  with r ne show ?thesis by blast
qed

end
