(* ===== verification/Deployment.thy ===== *)
theory Deployment
  imports Servers ResolverRuns
begin

text \<open>
  The server processes around the handlers of theory \<open>Servers\<close>: one turn of the
  \<^verbatim>\<open>while True\<close> loop of \<^verbatim>\<open>rootDnsServer()\<close> and \<^verbatim>\<open>authoritativeDnsServer()\<close>
  (and of the TLD server, from the spec). Each loop catches every exception with
  \<^verbatim>\<open>except: exit()\<close>, so a server is \<open>Up\<close> or, for good, \<open>Down\<close>, and the query
  it was serving gets no reply. The three servers form the network \<open>system_net\<close> the
  resolver talks to, an instance of the interface \<open>'n net\<close> of theory \<open>Helpers\<close>;
  \<open>system_net_answers\<close> discharges the resolver's interface \<open>net_answers\<close> from
  conditions on the handlers.
\<close>

section \<open>The server loops\<close>

datatype tier_status = Up | Down

text \<open>
  One turn of a server's \<^verbatim>\<open>while True\<close> loop: receive the name server, then the
  query, compute the reply and send \<^verbatim>\<open>str(result)\<close>; an exception, including the
  OSError of a reply too long for one datagram, leaves the loop through
  \<^verbatim>\<open>except: exit()\<close>.
\<close>

definition rootDnsServer_step ::
  "dns_oracle \<Rightarrow> tier_status \<Rightarrow> address \<Rightarrow> string \<Rightarrow> string option \<times> tier_status" where
  "rootDnsServer_step orc st localNameServer userInput =
     (case st of
        Down \<Rightarrow> (None, Down)
      | Up \<Rightarrow> (case findOutTld orc userInput localNameServer of
                 Inl _ \<Rightarrow> (None, Down)
               | Inr result \<Rightarrow>
                   (case sendto (py_str_list result) of
                      Inl _ \<Rightarrow> (None, Down)
                    | Inr _ \<Rightarrow> (Some (py_str_list result), Up))))"

definition authoritativeDnsServer_step ::
  "dns_oracle \<Rightarrow> tier_status \<Rightarrow> address \<Rightarrow> string \<Rightarrow> string option \<times> tier_status" where
  "authoritativeDnsServer_step orc st nameServer userInput =
     (case st of
        Down \<Rightarrow> (None, Down)
      | Up \<Rightarrow> (case findOutResultantIp orc userInput nameServer of
                 Inl _ \<Rightarrow> (None, Down)
               | Inr result \<Rightarrow>
                   (case sendto (py_str_list result) of
                      Inl _ \<Rightarrow> (None, Down)
                    | Inr _ \<Rightarrow> (Some (py_str_list result), Up))))"

definition tldDnsServer_step ::
  "dns_oracle \<Rightarrow> tier_status \<Rightarrow> address \<Rightarrow> string \<Rightarrow> string option \<times> tier_status" where
  "tldDnsServer_step orc st nameServer userInput =
     (case st of
        Down \<Rightarrow> (None, Down)
      | Up \<Rightarrow> (case tld_handler orc userInput nameServer of
                 Inl _ \<Rightarrow> (None, Down)
               | Inr result \<Rightarrow>
                   (case sendto (py_str_list result) of
                      Inl _ \<Rightarrow> (None, Down)
                    | Inr _ \<Rightarrow> (Some (py_str_list result), Up))))"

record tiers_state =
  root_st :: tier_status
  tld_st :: tier_status
  auth_st :: tier_status

definition all_up :: "tiers_state \<Rightarrow> bool" where
  "all_up n = (root_st n = Up \<and> tld_st n = Up \<and> auth_st n = Up)"

definition system_net :: "dns_oracle \<Rightarrow> tiers_state net" where
  "system_net orc n t nameServer message =
     (case t of
        Root \<Rightarrow> (let (r, st) = rootDnsServer_step orc (root_st n) nameServer message
                 in (r, n\<lparr>root_st := st\<rparr>))
      | TLD \<Rightarrow> (let (r, st) = tldDnsServer_step orc (tld_st n) nameServer message
                in (r, n\<lparr>tld_st := st\<rparr>))
      | Authoritative \<Rightarrow> (let (r, st) = authoritativeDnsServer_step orc (auth_st n) nameServer message
                          in (r, n\<lparr>auth_st := st\<rparr>)))"

definition all_up_state :: tiers_state where
  "all_up_state = \<lparr>root_st = Up, tld_st = Up, auth_st = Up\<rparr>"

text \<open>The status of the server behind a tier, and the tiers whose server has stopped.\<close>

definition tier_status_of :: "tiers_state \<Rightarrow> tier \<Rightarrow> tier_status" where
  "tier_status_of n t = (case t of Root \<Rightarrow> root_st n | TLD \<Rightarrow> tld_st n | Authoritative \<Rightarrow> auth_st n)"

section \<open>Lemmas\<close>

lemma step_Down [simp]:
  "rootDnsServer_step orc Down ns u = (None, Down)"
  "tldDnsServer_step orc Down ns u = (None, Down)"
  "authoritativeDnsServer_step orc Down ns u = (None, Down)"
  by (simp_all add: rootDnsServer_step_def tldDnsServer_step_def authoritativeDnsServer_step_def)

lemma system_net_Root:
  "system_net orc n Root ns u =
     (fst (rootDnsServer_step orc (root_st n) ns u), n\<lparr>root_st := snd (rootDnsServer_step orc (root_st n) ns u)\<rparr>)"
  by (simp add: system_net_def split_beta)

lemma system_net_TLD:
  "system_net orc n TLD ns u =
     (fst (tldDnsServer_step orc (tld_st n) ns u), n\<lparr>tld_st := snd (tldDnsServer_step orc (tld_st n) ns u)\<rparr>)"
  by (simp add: system_net_def split_beta)

lemma system_net_Authoritative:
  "system_net orc n Authoritative ns u =
     (fst (authoritativeDnsServer_step orc (auth_st n) ns u),
      n\<lparr>auth_st := snd (authoritativeDnsServer_step orc (auth_st n) ns u)\<rparr>)"
  by (simp add: system_net_def split_beta)

lemmas system_net_simps = system_net_Root system_net_TLD system_net_Authoritative

lemma system_net_Up:
  "tier_status_of n t = Up \<Longrightarrow> tier_handler orc t u ns = Inr ms \<Longrightarrow> udp_fits (py_str_list ms) \<Longrightarrow>
   system_net orc n t ns u = (Some (py_str_list ms), n)"
  by (cases t) (simp_all add: system_net_simps tier_status_of_def tier_handler_def rootDnsServer_step_def
      tldDnsServer_step_def authoritativeDnsServer_step_def)

lemma system_net_reply:
  "all_up n \<Longrightarrow> tier_handler orc t u ns = Inr ms \<Longrightarrow> udp_fits (py_str_list ms) \<Longrightarrow>
   system_net orc n t ns u = (Some (py_str_list ms), n)"
  by (rule system_net_Up) (cases t, simp_all add: all_up_def tier_status_of_def)

lemma system_net_answers:
  assumes h: "\<forall>t ns. short_addr ns \<longrightarrow> safe_message (ask t ns) \<and> short_addr (ask t ns) \<and>
      (\<exists>ms. tier_handler orc t d ns = Inr (ms @ [ask t ns]) \<and> udp_fits (py_str_list (ms @ [ask t ns])))"
  shows "net_answers (system_net orc) all_up d ask"
  unfolding net_answers_def
proof (intro allI impI)
  fix n t ns
  assume up: "all_up n" and sn: "short_addr ns"
  from h sn obtain ms where sf: "safe_message (ask t ns)" and sa: "short_addr (ask t ns)"
    and r: "tier_handler orc t d ns = Inr (ms @ [ask t ns])" and f: "udp_fits (py_str_list (ms @ [ask t ns]))"
    by blast
  show "safe_message (ask t ns) \<and> short_addr (ask t ns) \<and>
        (\<exists>ms. fst (system_net orc n t ns d) = Some (py_str_list (ms @ [ask t ns])))
        \<and> all_up (snd (system_net orc n t ns d))"
    using sf sa system_net_reply [OF up r f] up by auto
qed


lemma root_step_crash:
  "findOutTld orc u ns = Inl e \<Longrightarrow> rootDnsServer_step orc st ns u = (None, Down)"
  by (cases st) (simp_all add: rootDnsServer_step_def)

lemma system_net_fits: "net_fits (system_net orc)"
  unfolding net_fits_def
proof (intro allI impI)
  fix n t ns q r
  assume "fst (system_net orc n t ns q) = Some r"
  then show "udp_fits r"
    by (cases t) (auto simp: system_net_simps rootDnsServer_step_def tldDnsServer_step_def
        authoritativeDnsServer_step_def sendto_def split: tier_status.splits sum.splits if_splits)
qed

lemma system_net_replies:
  assumes h: "\<forall>t ns. short_addr ns \<longrightarrow> (\<exists>ms a. tier_handler orc t d ns = Inr (ms @ [a])
      \<and> safe_message a \<and> short_addr a \<and> udp_fits (py_str_list (ms @ [a])))"
  shows "net_replies (system_net orc) all_up d"
  unfolding net_replies_def
proof (intro allI impI)
  fix n t ns
  assume up: "all_up n" and sn: "short_addr ns"
  from h sn obtain ms a where r: "tier_handler orc t d ns = Inr (ms @ [a])" and sf: "safe_message a"
    and sa: "short_addr a" and f: "udp_fits (py_str_list (ms @ [a]))" by blast
  have n: "system_net orc n t ns d = (Some (py_str_list (ms @ [a])), n)" by (rule system_net_reply [OF up r f])
  have "reply_of (system_net orc) n t ns d = a"
    using getInputForNextServer_encoded [of "ms @ [a]"] sf n
    by (simp add: reply_of_def getInputForNextServer_eq)
  with n up sa show "fst (system_net orc n t ns d) \<noteq> None \<and> short_addr (reply_of (system_net orc) n t ns d)
      \<and> all_up (snd (system_net orc n t ns d))" by simp
qed

lemma demo_gsh:
  assumes d: "length d \<le> 1000" and sn: "short_addr ns" and fd: "udp_fits d"
    and up: "tier_status_of (net_state s) t = Up"
  shows "generalServerHandler (system_net demo_oracle) d ns t s =
           (Ok (demo_ask t ns), s\<lparr>trace := trace s @ [Query t ns d]\<rparr>)"
proof -
  obtain ms where sf: "safe_message (demo_ask t ns)"
    and h: "tier_handler demo_oracle t d ns = Inr (ms @ [demo_ask t ns])"
    and f: "udp_fits (py_str_list (ms @ [demo_ask t ns]))"
    using demo_oracle_answers [OF d] sn by blast
  have n: "system_net demo_oracle (net_state s) t ns d = (Some (py_str_list (ms @ [demo_ask t ns])), net_state s)"
    by (rule system_net_Up [OF up h f])
  show ?thesis
    using gsh_reply [where net = "system_net demo_oracle" and s = s and t = t and ns = ns and d = d,
        OF _ sf short_addr_fits [OF sn] fd] n by simp
qed


end
