(* ===== verification/Client.thy ===== *)
theory Client
  imports Helpers
begin

text \<open>
  Model of \<^verbatim>\<open>src/client.py\<close>: the interactive loop reads a line, lower-cases it
  (\<^verbatim>\<open>str.lower\<close>, here on the Latin-1 code points a char holds), stops on
  \<^verbatim>\<open>break\<close>, and sends the line to the local resolver when \<^verbatim>\<open>isValid\<close> accepts
  it, printing a prompt otherwise. \<^verbatim>\<open>isValid\<close> is \<^verbatim>\<open>len(re.findall(r"([a-z]+\.[a-z]+)+", s)) > 0\<close>;
  it is modelled as the regex engine's search for a match start: at each position try
  the greedy \<^verbatim>\<open>[a-z]+\<close>, then the dot, then one more lower-case letter (a longer
  match exists exactly when this one does). The lemmas prove it equal to a reference
  definition, the regular language of the pattern (an inductive predicate) occurring as
  a substring, and derive what the resolver may receive from the client.
  Sending a line is the event \<open>SentQuery\<close>; a line too long for one datagram
  makes \<^verbatim>\<open>sendto\<close> raise \<^verbatim>\<open>OSError\<close>, which ends the client (\<open>ClientRaised\<close>); \<^verbatim>\<open>connectClientToLocalDnsServer\<close> is
  modelled as reading the resolver's datagrams two per query (message, then result),
  blocking for ever when one is missing. Its prints are not modelled.
\<close>

section \<open>Characters\<close>

definition py_lower :: "char \<Rightarrow> char" where
  "py_lower c =
     (let n = of_char c :: nat in
      if (65 \<le> n \<and> n \<le> 90) \<or> (192 \<le> n \<and> n \<le> 222 \<and> n \<noteq> 215) then char_of (n + 32) else c)"

definition is_lower :: "char \<Rightarrow> bool" where
  "is_lower c = (let n = of_char c :: nat in 97 \<le> n \<and> n \<le> 122)"

section \<open>isValid\<close>

text \<open>A match of \<^verbatim>\<open>[a-z]+\.[a-z]\<close> starting at the head of \<open>v\<close>.\<close>

definition re_match_prefix :: "string \<Rightarrow> bool" where
  "re_match_prefix v =
     (let a = takeWhile is_lower v; r = drop (length a) v in
      a \<noteq> [] \<and> (case r of dot # c # _ \<Rightarrow> dot = CHR ''.'' \<and> is_lower c | _ \<Rightarrow> False))"

definition isValid :: "string \<Rightarrow> bool" where
  "isValid userInput = list_ex re_match_prefix (map (\<lambda>i. drop i userInput) [0..<length userInput])"

text \<open>The reference: the language of \<^verbatim>\<open>([a-z]+\.[a-z]+)+\<close>.\<close>

definition re_word :: "string \<Rightarrow> bool" where
  "re_word v = (\<exists>a b. v = a @ CHR ''.'' # b \<and> a \<noteq> [] \<and> b \<noteq> [] \<and> list_all is_lower a \<and> list_all is_lower b)"

inductive re_plus :: "string \<Rightarrow> bool" where
  one: "re_word v \<Longrightarrow> re_plus v"
| more: "re_word v \<Longrightarrow> re_plus w \<Longrightarrow> re_plus (v @ w)"

section \<open>The input loop\<close>

datatype client_event = SentQuery string | Prompted | ClientRaised py_error

text \<open>
  The \<^verbatim>\<open>while True\<close> loop over the lines the user types; the end of the input
  (\<^verbatim>\<open>input()\<close> raising EOFError, which the loop does not catch) ends the list.
  A valid line is passed to \<^verbatim>\<open>connectClientToLocalDnsServer\<close>, whose first act is
  the \<^verbatim>\<open>sendto\<close> of the line (client.py line 55): it raises OSError when the line
  does not fit in one datagram, and only \<^verbatim>\<open>KeyboardInterrupt\<close> is caught, so the
  client process ends there.
\<close>

fun client_loop :: "string list \<Rightarrow> client_event list" where
  "client_loop [] = []"
| "client_loop (line # rest) =
     (let userInput = map py_lower line in
      if userInput = ''break'' then []
      else if isValid userInput then
        (case sendto userInput of
           Inl e \<Rightarrow> [ClientRaised e]
         | Inr _ \<Rightarrow> SentQuery userInput # client_loop rest)
      else Prompted # client_loop rest)"

definition client_queries :: "string list \<Rightarrow> string list" where
  "client_queries inputs = [u. SentQuery u \<leftarrow> client_loop inputs]"

section \<open>The client's side of the exchange\<close>

text \<open>The datagrams a trace sends to the client, in order.\<close>

definition to_client :: "event list \<Rightarrow> string list" where
  "to_client tr = [m. ToClient m \<leftarrow> tr]"

text \<open>
  \<^verbatim>\<open>connectClientToLocalDnsServer\<close> called once per query sent: it sends the query,
  then takes the next datagram as the server's message and the one after as the result
  (two \<^verbatim>\<open>recvfrom\<close> calls, no timeout). The result is the list of (message, result)
  pairs the client prints, or \<open>None\<close> when a \<^verbatim>\<open>recvfrom\<close> finds no datagram and
  blocks for ever.
\<close>

fun connectClientToLocalDnsServer :: "string list \<Rightarrow> string list \<Rightarrow> (string \<times> string) list option" where
  "connectClientToLocalDnsServer [] datagrams = Some []"
| "connectClientToLocalDnsServer (message # rest) (serverMessage # result # datagrams) =
     map_option (Cons (serverMessage, result)) (connectClientToLocalDnsServer rest datagrams)"
| "connectClientToLocalDnsServer (message # rest) _ = None"


section \<open>Lemmas\<close>

lemma re_match_prefix_iff:
  "re_match_prefix v \<longleftrightarrow> (\<exists>a c w. v = a @ CHR ''.'' # c # w \<and> a \<noteq> [] \<and> list_all is_lower a \<and> is_lower c)"
proof
  assume m: "re_match_prefix v"
  let ?a = "takeWhile is_lower v"
  obtain c w where r: "drop (length ?a) v = CHR ''.'' # c # w" and lc: "is_lower c" and ne: "?a \<noteq> []"
    using m by (auto simp: re_match_prefix_def Let_def split: list.splits)
  have "v = ?a @ drop (length ?a) v" by (metis append_take_drop_id takeWhile_eq_take)
  with r have "v = ?a @ CHR ''.'' # c # w" by simp
  moreover have "list_all is_lower ?a" by (auto simp: list_all_iff dest: set_takeWhileD)
  ultimately show "\<exists>a c w. v = a @ CHR ''.'' # c # w \<and> a \<noteq> [] \<and> list_all is_lower a \<and> is_lower c"
    using ne lc by blast
next
  assume "\<exists>a c w. v = a @ CHR ''.'' # c # w \<and> a \<noteq> [] \<and> list_all is_lower a \<and> is_lower c"
  then obtain a c w where v: "v = a @ CHR ''.'' # c # w" and ne: "a \<noteq> []"
    and la: "list_all is_lower a" and lc: "is_lower c" by blast
  have nd: "\<not> is_lower CHR ''.''" by (simp add: is_lower_def)
  have la': "\<forall>x\<in>set a. is_lower x" using la by (simp add: list_all_iff)
  have "takeWhile is_lower v = a" using la' nd by (simp add: v)
  with v ne lc show "re_match_prefix v" by (simp add: re_match_prefix_def)
qed

lemma isValid_drop: "isValid s \<longleftrightarrow> (\<exists>i < length s. re_match_prefix (drop i s))"
  unfolding isValid_def list_ex_iff by auto

lemma isValid_triple:
  "isValid s \<longleftrightarrow> (\<exists>u x c w. s = u @ x # CHR ''.'' # c # w \<and> is_lower x \<and> is_lower c)"
proof
  assume "isValid s"
  then obtain i where m: "re_match_prefix (drop i s)"
    unfolding isValid_drop by blast
  then obtain a c w where d: "drop i s = a @ CHR ''.'' # c # w" and ne: "a \<noteq> []"
    and la: "list_all is_lower a" and lc: "is_lower c"
    unfolding re_match_prefix_iff by blast
  have a: "a = butlast a @ [last a]" using ne by simp
  have "s = take i s @ drop i s" by simp
  also have "\<dots> = (take i s @ butlast a) @ last a # CHR ''.'' # c # w"
    using d a by (metis append.assoc append_Cons append_Nil)
  finally have "s = (take i s @ butlast a) @ last a # CHR ''.'' # c # w" .
  moreover have "is_lower (last a)" using la ne by (simp add: list_all_iff)
  ultimately show "\<exists>u x c w. s = u @ x # CHR ''.'' # c # w \<and> is_lower x \<and> is_lower c"
    using lc by blast
next
  assume "\<exists>u x c w. s = u @ x # CHR ''.'' # c # w \<and> is_lower x \<and> is_lower c"
  then obtain u x c w where s: "s = u @ x # CHR ''.'' # c # w" and lx: "is_lower x" and lc: "is_lower c"
    by blast
  have "re_match_prefix ([x] @ CHR ''.'' # c # w)"
    unfolding re_match_prefix_iff
    by (rule exI [of _ "[x]"], rule exI [of _ c], rule exI [of _ w]) (simp add: lx lc)
  moreover have "drop (length u) s = [x] @ CHR ''.'' # c # w" by (simp add: s)
  ultimately have "re_match_prefix (drop (length u) s)" by simp
  moreover have "length u < length s" by (simp add: s)
  ultimately show "isValid s" unfolding isValid_drop by blast
qed

lemma re_plus_word:
  assumes "re_plus v"
  shows "\<exists>v1 v2. v = v1 @ v2 \<and> re_word v1"
  using assms
proof (cases rule: re_plus.cases)
  case one
  show ?thesis by (rule exI [of _ v], rule exI [of _ "[]"]) (simp add: one)
next
  case (more v1 w)
  show ?thesis by (rule exI [of _ v1], rule exI [of _ w]) (simp add: more)
qed

text \<open>
  C27 (isValid is the regex search). \<^verbatim>\<open>isValid\<close> accepts a string exactly when some
  substring of it is in the language of \<^verbatim>\<open>([a-z]+\.[a-z]+)+\<close>: the scanner is
  equivalent to the reference definition of \<^verbatim>\<open>re.findall\<close> finding a match.
\<close>

theorem isValid_regex:
  "isValid s \<longleftrightarrow> (\<exists>u v w. s = u @ v @ w \<and> re_plus v)"
proof
  assume "isValid s"
  then obtain u x c w where s: "s = u @ x # CHR ''.'' # c # w" and lx: "is_lower x" and lc: "is_lower c"
    by (auto simp: isValid_triple)
  have "re_plus [x, CHR ''.'', c]"
  proof (rule re_plus.one)
    have "[x, CHR ''.'', c] = [x] @ CHR ''.'' # [c]" by simp
    then show "re_word [x, CHR ''.'', c]" using lx lc unfolding re_word_def by fastforce
  qed
  moreover have "s = u @ [x, CHR ''.'', c] @ w" by (simp add: s)
  ultimately show "\<exists>u v w. s = u @ v @ w \<and> re_plus v" by blast
next
  assume "\<exists>u v w. s = u @ v @ w \<and> re_plus v"
  then obtain u v w where s: "s = u @ v @ w" and p: "re_plus v" by blast
  obtain v1 v2 where v: "v = v1 @ v2" and rw: "re_word v1" using re_plus_word [OF p] by blast
  then obtain a b where v1: "v1 = a @ CHR ''.'' # b" and a: "a \<noteq> []" "list_all is_lower a"
    and b: "b \<noteq> []" "list_all is_lower b" by (auto simp: re_word_def)
  have ea: "a = butlast a @ [last a]" using a by simp
  have eb: "b = hd b # tl b" using b by simp
  have "s = u @ (a @ CHR ''.'' # b) @ v2 @ w" using s v v1 by simp
  also have "\<dots> = (u @ butlast a) @ last a # CHR ''.'' # hd b # (tl b @ v2 @ w)"
    by (subst ea, subst eb) simp
  finally have "s = (u @ butlast a) @ last a # CHR ''.'' # hd b # (tl b @ v2 @ w)" .
  moreover have "is_lower (last a)" "is_lower (hd b)" using a b by (auto simp: list_all_iff)
  ultimately show "isValid s" unfolding isValid_triple by blast
qed

lemma isValid_dot: "isValid s \<Longrightarrow> CHR ''.'' \<in> set s"
  unfolding isValid_triple by auto

lemma dot_two_labels: "CHR ''.'' \<in> set s \<Longrightarrow> 2 \<le> length (splitInput s)"
proof -
  assume "CHR ''.'' \<in> set s"
  then have "count_list s CHR ''.'' \<noteq> 0" by (simp add: count_list_0_iff)
  then show ?thesis by (simp add: splitInput_def length_py_split)
qed

lemma client_loop_sent: "SentQuery u \<in> set (client_loop inputs) \<Longrightarrow> isValid u \<and> udp_fits u"
  by (induction inputs rule: client_loop.induct) (auto simp: Let_def sendto_def split: if_splits sum.splits)

lemma client_queries_sent: "u \<in> set (client_queries inputs) \<Longrightarrow> isValid u \<and> udp_fits u"
  by (auto simp: client_queries_def intro!: client_loop_sent split: client_event.splits)

lemma client_queries_two_labels: "u \<in> set (client_queries inputs) \<Longrightarrow> 2 \<le> length (splitInput u)"
  using client_queries_sent by (blast intro: dot_two_labels isValid_dot)


end
