(* ===== verification/Session.thy ===== *)
theory Session
  imports Deployment Client
begin

text \<open>
  The resolver's loop over a whole sequence of queries, and the client on the other end
  of it. \<open>spec_session\<close> runs the spec's resolution algorithm (section 4.4,
  \<open>spec_resolve\<close>) over a list of domains, threading the cache from one resolution to
  the next and collecting the datagrams the spec's engine would send. The refinement
  lemma shows that \<open>localDnsServer_loop\<close> implements it, by induction over the list
  with the one-query refinement of theory \<open>LocalResolver\<close>. The client reads the
  resolver's datagrams with \<open>connectClientToLocalDnsServer\<close> (theory \<open>Client\<close>); the
  lemmas show that it gets, for each query, the acknowledgement and then the answer to
  that query, and that after a failed iteration it waits for ever.
\<close>

text \<open>The spec's engine over a sequence of domains (section 4.4 and the cache of 4.2).\<close>

fun spec_session ::
  "(domain \<Rightarrow> tier \<Rightarrow> address \<Rightarrow> address) \<Rightarrow> address \<Rightarrow> domain list \<Rightarrow> (string \<rightharpoonup> address)
   \<Rightarrow> address list \<times> (string \<rightharpoonup> address) \<times> event list" where
  "spec_session ask rootNS [] m = ([], m, [])"
| "spec_session ask rootNS (d # ds) m =
     (let (a, m1, q) = spec_resolve (ask d) rootNS d m;
          (as, m2, ev) = spec_session ask rootNS ds m1
      in (a # as, m2,
          ToClient (hang_message d) # map (\<lambda>(t, ns). Query t ns d) q @ [ToClient a] @ ev))"

lemma session_spec_run:
  "\<forall>d \<in> set ds. net_answers net P d (ask d) \<and> 2 \<le> length (splitInput d) \<and> udp_fits (hang_message d) \<Longrightarrow>
   P (net_state s) \<Longrightarrow> nss \<noteq> [] \<Longrightarrow> short_addr (hd nss) \<Longrightarrow> cache_short (cache s) \<Longrightarrow>
   \<exists>s'. localDnsServer_loop net nss ds s = (Ok (fst (spec_session ask (hd nss) ds (map_of (cache s)))), s')
     \<and> map_of (cache s') = fst (snd (spec_session ask (hd nss) ds (map_of (cache s))))
     \<and> trace s' = trace s @ snd (snd (spec_session ask (hd nss) ds (map_of (cache s))))
     \<and> P (net_state s')"
proof (induction ds arbitrary: s)
  case Nil
  then show ?case by (simp add: ret_apply)
next
  case (Cons d ds)
  then have ans: "net_answers net P d (ask d)" and two: "2 \<le> length (splitInput d)"
    and fh: "udp_fits (hang_message d)" by auto
  obtain s1 where r1: "localDnsServer_request net nss d s =
        (Ok (fst (spec_resolve (ask d) (hd nss) d (map_of (cache s)))), s1)"
    and c1: "map_of (cache s1) = fst (snd (spec_resolve (ask d) (hd nss) d (map_of (cache s))))"
    and t1: "trace s1 = trace s @ ToClient (hang_message d) #
               map (\<lambda>(t, a). Query t a d) (snd (snd (spec_resolve (ask d) (hd nss) d (map_of (cache s)))))
               @ [ToClient (fst (spec_resolve (ask d) (hd nss) d (map_of (cache s))))]"
    and p1: "P (net_state s1)" and cs1: "cache_short (cache s1)"
    using request_spec_run [OF ans Cons.prems(2) two Cons.prems(3) fh Cons.prems(4,5)] by blast
  obtain s' where r2: "localDnsServer_loop net nss ds s1 =
        (Ok (fst (spec_session ask (hd nss) ds (map_of (cache s1)))), s')"
    and c2: "map_of (cache s') = fst (snd (spec_session ask (hd nss) ds (map_of (cache s1))))"
    and t2: "trace s' = trace s1 @ snd (snd (spec_session ask (hd nss) ds (map_of (cache s1))))"
    and p2: "P (net_state s')"
    using Cons.IH [OF _ p1 Cons.prems(3,4) cs1] Cons.prems(1) by auto
  show ?case
    using r1 r2 c1 c2 t1 t2 p2
    by (simp add: bind_prog_apply ret_apply split_beta)
qed

lemma to_client_append [simp]: "to_client (xs @ ys) = to_client xs @ to_client ys"
  by (simp add: to_client_def)

lemma to_client_simps [simp]:
  "to_client [] = []" "to_client (ToClient m # tr) = m # to_client tr"
  "to_client (Query t ns q # tr) = to_client tr" "to_client (Stray t ns # tr) = to_client tr"
  by (simp_all add: to_client_def)

lemma request_to_client:
  assumes run: "localDnsServer_request net nss d s = (r, s')"
  shows "to_client (trace s') =
           to_client (trace s) @
             (if udp_fits (hang_message d)
              then (case r of Ok ip \<Rightarrow> [hang_message d, ip] | _ \<Rightarrow> [hang_message d]) else [])"
proof (cases "2 \<le> length (splitInput d)")
  case False
  with run show ?thesis
    by (auto simp: request_split_simps unpack2_short split: sum.splits if_splits)
next
  case True
  then obtain l2 where u: "unpack2 (rev (splitInput d)) = Inr (suffix d (Suc 0), l2)"
    by (rule keys_two)
  show ?thesis
    using run
    by (auto simp: request_split_simps u
        split: prod.splits outcome.splits sum.splits if_splits dest!: gsh_trace fetch_state)
qed

lemma loop_to_client:
  "localDnsServer_loop net nss us s = (Ok ips, s') \<Longrightarrow>
   length ips = length us \<and>
   to_client (trace s') = to_client (trace s) @ concat (map (\<lambda>(u, ip). [hang_message u, ip]) (zip us ips))"
proof (induction us arbitrary: s ips)
  case Nil
  then show ?case by (simp add: ret_apply)
next
  case (Cons u us)
  obtain r1 s1 where r1: "localDnsServer_request net nss u s = (r1, s1)" by fastforce
  show ?case
  proof (cases r1)
    case (Ok ip)
    obtain r2 s2 where r2: "localDnsServer_loop net nss us s1 = (r2, s2)" by fastforce
    show ?thesis
      using Cons.prems Cons.IH [of s1] r1 r2 request_to_client [OF r1] Ok request_ok_ack_fits [of net nss u s ip s1]
      by (auto simp: bind_prog_apply ret_apply split: outcome.splits)
  next
    case (Raised e)
    with Cons.prems r1 show ?thesis by (simp add: bind_prog_apply)
  next
    case Hang
    with Cons.prems r1 show ?thesis by (simp add: bind_prog_apply)
  qed
qed

lemma loop_append_ok:
  "localDnsServer_loop net nss us s = (Ok ips, s1) \<Longrightarrow>
   localDnsServer_loop net nss (us @ ws) s =
     (case localDnsServer_loop net nss ws s1 of
        (Ok ips', s2) \<Rightarrow> (Ok (ips @ ips'), s2) | (Raised e, s2) \<Rightarrow> (Raised e, s2) | (Hang, s2) \<Rightarrow> (Hang, s2))"
proof (induction us arbitrary: s ips)
  case Nil
  then show ?case by (cases "localDnsServer_loop net nss ws s1") (auto simp: ret_apply split: outcome.splits)
next
  case (Cons u us)
  obtain r1 s' where r1: "localDnsServer_request net nss u s = (r1, s')" by fastforce
  show ?case
    using Cons.prems Cons.IH [of s'] r1
    by (auto simp: bind_prog_apply ret_apply split: outcome.splits prod.splits)
qed

lemma connect_pairs:
  "length ips = length us \<Longrightarrow>
   connectClientToLocalDnsServer us (concat (map (\<lambda>(u, ip). [hang_message u, ip]) (zip us ips))) =
     Some (zip (map hang_message us) ips)"
proof (induction us arbitrary: ips)
  case Nil
  then show ?case by simp
next
  case (Cons u us)
  then show ?case by (cases ips) auto
qed

text \<open>
  C2 (a sequence of queries refines the spec). Serving a list of domains, each of at
  least two labels, on a network that answers every tier query for each of them, the
  resolver's loop returns the spec's addresses in order, leaves the cache equal to the
  spec's cache after the whole sequence (each resolution starting from the cache the
  previous one left), and sends exactly the spec's datagrams in order: per domain the
  acknowledgement, its tier round trips and its answer.
\<close>

theorem session_refines_spec:
  assumes "\<forall>d \<in> set ds. net_answers net P d (ask d) \<and> 2 \<le> length (splitInput d) \<and> udp_fits (hang_message d)"
    and "P (net_state s)" and "nss \<noteq> []" and "short_addr (hd nss)" and "cache_short (cache s)"
  shows "\<exists>s'. localDnsServer_loop net nss ds s = (Ok (fst (spec_session ask (hd nss) ds (map_of (cache s)))), s')
     \<and> map_of (cache s') = fst (snd (spec_session ask (hd nss) ds (map_of (cache s))))
     \<and> trace s' = trace s @ snd (snd (spec_session ask (hd nss) ds (map_of (cache s))))
     \<and> P (net_state s')"
  using assms by (rule session_spec_run)

theorem session_refines_spec_witness:
  "\<exists>s'. localDnsServer_loop demo_net [''8.8.8.8''] [''gaia.cs.umass.edu'', ''other.cs.umass.edu''] (init_resolver ())
        = (Ok [''128.119.245.12'', ''128.119.245.12''], s')
     \<and> map_of (cache s') ''edu'' = Some ''192.5.6.30''
     \<and> map_of (cache s') ''other.cs.umass.edu'' = Some ''128.119.245.12''"
proof -
  have h: "\<forall>d \<in> set [''gaia.cs.umass.edu'', ''other.cs.umass.edu'']. net_answers demo_net (\<lambda>_. True) d demo_ask
      \<and> 2 \<le> length (splitInput d) \<and> udp_fits (hang_message d)"
    by (simp add: demo_net_answers splitInput_def fits_eval)
  have fn: "short_addr (hd [''8.8.8.8''])" by (simp add: fits_eval)
  have cs: "cache_short (cache (init_resolver ()))" by (simp add: cache_short_def init_resolver_def)
  show ?thesis
    using session_refines_spec [where ask = "\<lambda>_. demo_ask", OF h _ _ fn cs]
    by (auto simp: spec_resolve_def Let_def init_resolver_def demo_ask_def suffix_def splitInput_def)
qed

text \<open>
  C14 (the client reads the answer to its own query). When the resolver's loop serves a
  list of queries to completion, the datagrams it sends to the client, read in order by
  one \<^verbatim>\<open>connectClientToLocalDnsServer\<close> call per query (two \<^verbatim>\<open>recvfrom\<close> each),
  give the client for every query the acknowledgement naming that query and then the
  resolver's answer to it: the two processes never get out of step.
\<close>

theorem client_sees_answers:
  assumes "localDnsServer_loop net nss us s = (Ok ips, s')"
  shows "connectClientToLocalDnsServer us (drop (length (to_client (trace s))) (to_client (trace s'))) =
           Some (zip (map hang_message us) ips)"
  using loop_to_client [OF assms] connect_pairs by simp

theorem client_sees_answers_witness:
  "\<exists>ips s'. localDnsServer_loop demo_net [''8.8.8.8''] [''gaia.cs.umass.edu''] (init_resolver ()) = (Ok ips, s')
     \<and> connectClientToLocalDnsServer [''gaia.cs.umass.edu''] (to_client (trace s')) =
          Some [(hang_message ''gaia.cs.umass.edu'', hd ips)]"
proof -
  have h: "\<forall>u \<in> set [''gaia.cs.umass.edu'']. net_replies demo_net (\<lambda>_. True) u \<and> 2 \<le> length (splitInput u)
      \<and> udp_fits (hang_message u)"
    by (simp add: demo_net_replies splitInput_def fits_eval)
  have fn: "short_addr (hd [''8.8.8.8''])" by (simp add: fits_eval)
  have cs: "cache_short (cache (init_resolver ()))" by (simp add: cache_short_def init_resolver_def)
  obtain ips s' where run: "localDnsServer_loop demo_net [''8.8.8.8''] [''gaia.cs.umass.edu''] (init_resolver ()) =
      (Ok ips, s')" and l: "length ips = 1"
    using loop_completes [OF h _ _ fn cs] by auto
  then obtain ip where ips: "ips = [ip]" by (cases ips) auto
  show ?thesis
    using client_sees_answers [OF run] run ips by (simp add: init_resolver_def)
qed

text \<open>
  C15 (a failed iteration leaves the client blocked). When an iteration of the resolver
  raises or blocks on a tier, it has sent the client at most its acknowledgement (none
  when the acknowledgement itself is too long for a datagram), so one of the client's
  \<^verbatim>\<open>recvfrom\<close> calls for that query never returns: there is no error reply
  (spec section 7 asks the orchestrator to report the failing stage's message).
\<close>

theorem client_blocks_on_failure:
  assumes run: "localDnsServer_request net nss u s = (r, s')" and nok: "\<forall>ip. r \<noteq> Ok ip"
  shows "connectClientToLocalDnsServer [u] (drop (length (to_client (trace s))) (to_client (trace s'))) = None"
  using request_to_client [OF run] nok by (cases r) (auto split: if_splits)

theorem client_blocks_on_failure_witness:
  "connectClientToLocalDnsServer [''gaia.cs.umass.edu'']
     (to_client (trace (snd (localDnsServer_request (\<lambda>(n::unit) t ns q. (None, n)) [''8.8.8.8'']
        ''gaia.cs.umass.edu'' (init_resolver ()))))) = None"
proof -
  let ?N = "\<lambda>(n::unit) t (ns::string) (q::string). (None :: string option, n)"
  have two: "2 \<le> length (splitInput ''gaia.cs.umass.edu'')" by (simp add: splitInput_def)
  have nc: "map_of (cache (init_resolver ())) (suffix ''gaia.cs.umass.edu'' 1) = None"
    by (simp add: init_resolver_def)
  have r: "fst (?N (net_state (init_resolver ())) Root (hd [''8.8.8.8'']) ''gaia.cs.umass.edu'') = None" by simp
  have run: "localDnsServer_request ?N [''8.8.8.8''] ''gaia.cs.umass.edu'' (init_resolver ()) =
      (Hang, snd (localDnsServer_request ?N [''8.8.8.8''] ''gaia.cs.umass.edu'' (init_resolver ())))"
    using request_root_hang [where net = ?N, OF nc r two] by (simp add: fits_eval)
  show ?thesis
    using client_blocks_on_failure [OF run] by (simp add: init_resolver_def)
qed

end
