(* ===== verification/Spec2Isabelle.thy ===== *)
theory Spec2Isabelle
  imports Session
begin

text \<open>
  A verification development of the simulated DNS hierarchy of this repository: a
  client (\<^verbatim>\<open>src/client.py\<close>) sends a domain to the local resolver
  (\<^verbatim>\<open>src/localDnsServer.py\<close>), which acknowledges it, asks the root server
  (\<^verbatim>\<open>src/rootDnsServer.py\<close>) for the TLD server, the TLD server for the
  authoritative server and the authoritative server
  (\<^verbatim>\<open>src/authoritativeDnsServer.py\<close>) for the address, caching each answer under a
  suffix of the domain, and sends the address back. Every process shares
  \<^verbatim>\<open>src/helpers.py\<close>. Tiers talk over UDP: the resolver sends the name server, then
  the domain; a tier answers with \<^verbatim>\<open>str(list_of_messages)\<close>, whose last message is
  the next address.

  \<^bold>\<open>Theories.\<close>
  \<^item> \<open>Prelude\<close>: the Python semantics the model needs. Exceptions are \<open>py_error\<close>;
    a statement's result is an \<open>outcome\<close> (\<open>Ok\<close>, \<open>Raised\<close>, or \<open>Hang\<close> for a
    \<^verbatim>\<open>recvfrom\<close> that never returns); stateful code is a state monad \<open>prog\<close> with
    \<open>bind_prog\<close>, and raising expressions use \<open>bind_sum\<close>. It also holds
    \<^verbatim>\<open>str.split\<close>, \<^verbatim>\<open>join\<close>, \<^verbatim>\<open>strip\<close> and indexing on char lists, with their
    split/join round trips.
  \<^item> \<open>Datagram\<close>: the bytes under every socket call. \<^verbatim>\<open>str.encode\<close> is UTF-8
    over \<open>8 word\<close> bytes (\<open>utf8_encode\<close>), and \<^verbatim>\<open>sendto\<close> raises
    \<^verbatim>\<open>OSError\<close> on a string whose encoding exceeds the 65507 bytes of a UDP
    datagram (\<open>udp_fits\<close>). Lemmas: the byte count of an encoding, and that a
    subsequence of a string that fits fits as well.
  \<^item> \<open>Helpers\<close>: \<^verbatim>\<open>helpers.py\<close> (constants, \<^verbatim>\<open>splitInput\<close>, \<^verbatim>\<open>getInput\<close>,
    \<^verbatim>\<open>getInputForNextServer\<close>, \<^verbatim>\<open>actAsTemporaryClient\<close>) and the network interface
    \<open>'n net\<close>. A network maps its state, a tier, a name server and a query to a reply
    datagram, or to \<open>None\<close> when none ever comes. \<open>getInput_eq\<close> gives
    \<^verbatim>\<open>getInput\<close> in closed form against the spec's \<open>suffix\<close>.
  \<^item> \<open>Protocol\<close>: the tiers' \<^verbatim>\<open>str(result)\<close> as CPython's list display with
    \<^verbatim>\<open>repr\<close> of each string (\<open>py_str_list\<close>), and its decoding by the resolver. The
    decoding inverts the encoding on safe messages (no comma, quote, backslash or
    non-printable character) and not in general. \<^verbatim>\<open>customPrint\<close> of
    \<^verbatim>\<open>helpers.py\<close> is modelled as the lines it prints, with Python's \<^verbatim>\<open>str()\<close>
    and \<^verbatim>\<open>type()\<close> of the str, list and dict values the sources pass it.
  \<^item> \<open>LocalResolver\<close>: \<^verbatim>\<open>localDnsServer.py\<close>. The state is a record with the module-level
    \<^verbatim>\<open>cache\<close> dict (an association list), the network state and the trace of datagrams
    sent. \<open>localDnsServer_request\<close> is one iteration of the \<^verbatim>\<open>while True\<close> loop,
    statement by statement; \<open>localDnsServer_loop\<close> serves a list of queries, and
    \<open>resolver_reachable\<close> is the set of reachable states. It also states the spec's
    algorithm (\<open>spec_resolve\<close>, section 4.4) and the interface \<open>net_answers\<close> the
    resolver needs from the network. \<open>resolver_inputs_print\<close> is what an iteration
    prints about its decomposition of the query. Lemmas: refinement of
    \<open>spec_resolve\<close>, the cache invariant, monotonicity, the outcome of each failure, and
    that the printed inputs are the cache keys.
  \<^item> \<open>ResolverRuns\<close>: properties of the resolver over any network. One iteration
    adds at most three cache keys and queries each tier at most once. It returns an
    address whenever every tier replies (the interface \<open>net_replies\<close>), and the
    loop then returns one address per query. Every cached address is free of commas
    and quotes (\<open>cache_wf\<close>). Ordering: an iteration acknowledges first, consults
    the tiers in increasing order (\<open>tier\<close> is a \<open>linorder\<close> by port) and answers
    last, and the cache keys keep their insertion order over any run.
  \<^item> \<open>Servers\<close>: \<^verbatim>\<open>findOutTld\<close> and \<^verbatim>\<open>findOutResultantIp\<close> over a dnspython
    oracle (the record \<open>dns_oracle\<close>), with the last message of each reply
    classified. The TLD server has no source here and is modelled from the spec as an
    oracle reply.
  \<^item> \<open>Deployment\<close>: each server's loop turn, in which an exception stops the server
    for good (\<open>Up\<close>/\<open>Down\<close>). \<open>system_net\<close> joins the three servers into a
    \<open>'n net\<close>, and \<open>system_net_answers\<close>/\<open>system_net_replies\<close> discharge the
    resolver's interfaces from conditions on the handlers.
  \<^item> \<open>Client\<close>: \<^verbatim>\<open>client.py\<close>. \<^verbatim>\<open>str.lower\<close>, \<^verbatim>\<open>isValid\<close> as the regex engine's
    search (proved equal to the regular language as a substring), the input loop, and
    \<^verbatim>\<open>connectClientToLocalDnsServer\<close> reading two datagrams per query.
  \<^item> \<open>Session\<close>: the resolver's loop over a sequence of queries refines
    \<open>spec_session\<close>, the spec's engine run over the sequence with the cache threaded
    through. The client's \<^verbatim>\<open>connectClientToLocalDnsServer\<close> reads the resolver's
    datagrams and gets the acknowledgement and the answer to each of its own queries.
    After a failed iteration it waits for ever.
  \<^item> This theory: the properties spanning components. The resolver runs over the
    simulated servers. An NXDOMAIN from the root or the authoritative tier ends up in
    the cache, and from the authoritative tier also in the client's answer. A query
    that crashes the root server blocks the resolver, and the root stays down. No client query makes the resolver raise unless
    its acknowledgement is too long for a datagram, and then it kills the resolver;
    with an oracle that always answers a client session runs to completion.

  \<^bold>\<open>Bounds and fuel.\<close> No loop of the model needs fuel. The resolver's and the
  servers' \<^verbatim>\<open>while True\<close> loops are modelled one iteration at a time; finite runs are
  lists of queries (\<open>localDnsServer_loop\<close>, \<open>client_loop\<close>) or rule induction on
  \<open>resolver_reachable\<close>. Termination of a session is proved outright: it ends
  after one iteration per query sent. A blocked \<^verbatim>\<open>recvfrom\<close> is the value
  \<open>Hang\<close>, never divergence. Ports and \<^verbatim>\<open>BUFFER_SIZE\<close> are constants. A datagram carries at most
  65507 bytes, which \<^verbatim>\<open>BUFFER_SIZE\<close> (65535) exceeds, so \<^verbatim>\<open>recvfrom\<close> never
  truncates. Theorems over every name server a tier may hand out restrict it to
  addresses of at most 255 bytes (\<open>short_addr\<close>), the limit of a DNS name, so
  that a reply naming it still fits a datagram; the cache keeps that bound
  (\<open>cache_short\<close>).

  \<^bold>\<open>Not modelled.\<close> The \<^verbatim>\<open>print\<close> calls other than \<^verbatim>\<open>displayMessages\<close> and
  \<^verbatim>\<open>customPrint\<close>, which only echo values the model already has, and the
  \<^verbatim>\<open>customPrint("cache", cache)\<close> call, whose dict display is \<open>py_print\<close> of the
  cache; socket creation and binding; UTF-8 beyond code point 255, since a char of the
  model is a Latin-1 code point; dnspython's internals, which are reduced to the
  oracle's results;
  \<^verbatim>\<open>KeyboardInterrupt\<close>. The TLD server is present only as the spec's oracle.
\<close>

text \<open>
  C3 (the resolver over the simulated servers). When every tier handler, for every
  name server of at most 255 bytes it is asked to consult, ends its reply for \<open>d\<close>
  with a safe address \<open>ask t ns\<close> of at most 255 bytes, in a reply that fits one
  datagram, the acknowledgement fits a datagram, the root name server and the cached
  addresses are at most 255 bytes, and all three servers are up, one resolver
  iteration over the network
  of the three server loops returns the spec's final address and leaves the spec's
  cache, and no server stops.
\<close>

theorem system_resolve:
  assumes h: "\<forall>t ns. short_addr ns \<longrightarrow> safe_message (ask t ns) \<and> short_addr (ask t ns) \<and>
      (\<exists>ms. tier_handler orc t d ns = Inr (ms @ [ask t ns]) \<and> udp_fits (py_str_list (ms @ [ask t ns])))"
    and up: "all_up (net_state s)" and two: "2 \<le> length (splitInput d)" and ns: "nameservers \<noteq> []"
    and fh: "udp_fits (hang_message d)" and fn: "short_addr (hd nameservers)" and cs: "cache_short (cache s)"
  shows "\<exists>s'. localDnsServer_request (system_net orc) nameservers d s =
            (Ok (fst (spec_resolve ask (hd nameservers) d (map_of (cache s)))), s')
          \<and> map_of (cache s') = fst (snd (spec_resolve ask (hd nameservers) d (map_of (cache s))))
          \<and> all_up (net_state s')"
  using request_spec_run [OF system_net_answers [OF h] up two ns fh fn cs] by blast

theorem system_resolve_witness:
  "\<exists>s'. localDnsServer_request (system_net demo_oracle) [''198.41.0.4''] ''gaia.cs.umass.edu''
          (init_resolver all_up_state) = (Ok ''128.119.245.12'', s')
     \<and> map_of (cache s') = [''edu'' \<mapsto> ''192.5.6.30'', ''umass.edu'' \<mapsto> ''128.119.40.186'',
                             ''gaia.cs.umass.edu'' \<mapsto> ''128.119.245.12'']
     \<and> all_up (net_state s')"
proof -
  have up: "all_up (net_state (init_resolver all_up_state))"
    by (simp add: init_resolver_def all_up_state_def all_up_def)
  have two: "2 \<le> length (splitInput ''gaia.cs.umass.edu'')" by (simp add: splitInput_def)
  have h: "\<forall>t ns. short_addr ns \<longrightarrow> safe_message (demo_ask t ns) \<and> short_addr (demo_ask t ns) \<and>
      (\<exists>ms. tier_handler demo_oracle t ''gaia.cs.umass.edu'' ns = Inr (ms @ [demo_ask t ns])
         \<and> udp_fits (py_str_list (ms @ [demo_ask t ns])))"
    by (rule demo_oracle_answers) simp
  have f: "udp_fits (hang_message ''gaia.cs.umass.edu'')" "short_addr (hd [''198.41.0.4''])"
    by (simp_all add: fits_eval)
  have cs: "cache_short (cache (init_resolver all_up_state))" by (simp add: cache_short_def init_resolver_def)
  show ?thesis
    using system_resolve [OF h up two _ f cs]
    by (simp add: spec_resolve_def init_resolver_def demo_ask_def suffix_def splitInput_def Let_def)
qed

text \<open>
  C4 (a name the root tier reports as non-existent is cached). If the root server's NS
  query for the top-level label answers NXDOMAIN and the label is not cached, then after
  the resolver's iteration, whatever its outcome, the cache maps the top-level label to
  the diagnostic \<open>Please enter a legible domain\<close>: the resolver takes the last message
  of the root's reply as the TLD server's address and stores it. Spec sections 7 and 8
  require that a NameNotFound result aborts the resolution without a cache entry for the
  failing suffix; every later query under that label is sent to this "address".
\<close>

theorem root_nxdomain_cached:
  assumes ok: "name_ok orc d"
    and nx: "udp_query orc (suffix d 1 @ ''.'') NS (hd nss) = Some r" and rc: "resp_rcode r = NXDOMAIN"
    and up: "root_st (net_state s) = Up" and miss: "map_of (cache s) (suffix d 1) = None"
    and two: "2 \<le> length (splitInput d)" and ns: "nss \<noteq> []"
    and fh: "udp_fits (hang_message d)" and fn: "udp_fits (hd nss)"
    and rf: "\<forall>ms. findOutTld orc d (hd nss) = Inr ms \<longrightarrow> udp_fits (py_str_list ms)"
    and run: "localDnsServer_request (system_net orc) nss d s = (res, s')"
  shows "map_of (cache s') (suffix d 1) = Some ''Please enter a legible domain''"
proof -
  obtain ms where f: "findOutTld orc d (hd nss) = Inr (ms @ [''Please enter a legible domain''])"
    using findOutTld_nxdomain [OF ok nx rc] by blast
  have "fst (system_net orc (net_state s) Root (hd nss) d) =
          Some (py_str_list (ms @ [''Please enter a legible domain'']))"
    using system_net_Up [of "net_state s" Root orc d "hd nss"] f up rf
    by (simp add: tier_status_of_def tier_handler_def)
  then show ?thesis
    by (rule request_root_stored [OF miss _ safe_legible two ns fh fn run])
qed

theorem root_nxdomain_cached_witness:
  "\<exists>res s'. localDnsServer_request (system_net nx_oracle) [''198.41.0.4''] ''gaia.cs.umass.edu''
              (init_resolver all_up_state) = (res, s')
     \<and> map_of (cache s') ''edu'' = Some ''Please enter a legible domain''"
proof -
  obtain res s' where run: "localDnsServer_request (system_net nx_oracle) [''198.41.0.4''] ''gaia.cs.umass.edu''
              (init_resolver all_up_state) = (res, s')" by fastforce
  have k: "suffix ''gaia.cs.umass.edu'' 1 = ''edu''" by (simp add: suffix_def splitInput_def)
  have "map_of (cache s') (suffix ''gaia.cs.umass.edu'' 1) = Some ''Please enter a legible domain''"
    by (rule root_nxdomain_cached [where r = "\<lparr>resp_rcode = NXDOMAIN, authority = [], answer = []\<rparr>",
          OF _ _ _ _ _ _ _ _ _ _ run])
       (simp_all add: nx_oracle_def demo_oracle_def init_resolver_def all_up_state_def splitInput_def suffix_def
        findOutTld_def handler_simps dq_def fits_eval)
  with run k show ?thesis by auto
qed

text \<open>
  C19 (an NXDOMAIN from the authoritative tier is returned as the address). When the
  root and TLD tiers answer and the authoritative server's A query answers NXDOMAIN,
  the iteration ends normally: the resolver sends the diagnostic
  \<open>Please enter a legible domain\<close> to the client as the resolved address and caches it
  under the full domain, where spec sections 7 and 8 ask for an aborted resolution with
  no entry for the failing suffix.
\<close>

theorem auth_nxdomain_returned:
  assumes root: "\<forall>ns. short_addr ns \<longrightarrow> safe_message (ask Root ns) \<and> short_addr (ask Root ns) \<and>
      (\<exists>ms. findOutTld orc d ns = Inr (ms @ [ask Root ns]) \<and> udp_fits (py_str_list (ms @ [ask Root ns])))"
    and tld: "\<forall>ns. short_addr ns \<longrightarrow> safe_message (ask TLD ns) \<and> short_addr (ask TLD ns) \<and>
      (\<exists>ms. tld_handler orc d ns = Inr (ms @ [ask TLD ns]) \<and> udp_fits (py_str_list (ms @ [ask TLD ns])))"
    and ok: "name_ok orc d"
    and nx: "\<forall>ns. short_addr ns \<longrightarrow> (\<exists>r. udp_query orc (d @ ''.'') A ns = Some r \<and> resp_rcode r = NXDOMAIN)"
    and af: "\<forall>ns ms. short_addr ns \<longrightarrow> findOutResultantIp orc d ns = Inr ms \<longrightarrow> udp_fits (py_str_list ms)"
    and up: "all_up (net_state s)" and two: "2 \<le> length (splitInput d)" and ns: "nss \<noteq> []"
    and fh: "udp_fits (hang_message d)" and fn: "short_addr (hd nss)" and cs: "cache_short (cache s)"
  shows "\<exists>s'. localDnsServer_request (system_net orc) nss d s = (Ok ''Please enter a legible domain'', s')
           \<and> map_of (cache s') d = Some ''Please enter a legible domain''"
proof -
  define ask' where "ask' t a = (if t = Authoritative then ''Please enter a legible domain'' else ask t a)" for t a
  have sl: "short_addr ''Please enter a legible domain''" by (simp add: fits_eval)
  have h: "\<forall>t a. short_addr a \<longrightarrow> safe_message (ask' t a) \<and> short_addr (ask' t a) \<and>
      (\<exists>ms. tier_handler orc t d a = Inr (ms @ [ask' t a]) \<and> udp_fits (py_str_list (ms @ [ask' t a])))"
  proof (intro allI impI)
    fix t a
    assume sa: "short_addr a"
    show "safe_message (ask' t a) \<and> short_addr (ask' t a) \<and>
      (\<exists>ms. tier_handler orc t d a = Inr (ms @ [ask' t a]) \<and> udp_fits (py_str_list (ms @ [ask' t a])))"
    proof (cases t)
      case Authoritative
      obtain r where "udp_query orc (d @ ''.'') A a = Some r" "resp_rcode r = NXDOMAIN" using nx sa by blast
      then obtain ms where "findOutResultantIp orc d a = Inr (ms @ [''Please enter a legible domain''])"
        using findOutResultantIp_nxdomain [OF ok] by blast
      then show ?thesis
        using af sa safe_legible sl Authoritative by (simp add: ask'_def tier_handler_def)
    qed (use root tld sa in \<open>simp_all add: ask'_def tier_handler_def\<close>)
  qed
  obtain s' where run: "localDnsServer_request (system_net orc) nss d s =
      (Ok (fst (spec_resolve ask' (hd nss) d (map_of (cache s)))), s')"
    and c: "map_of (cache s') = fst (snd (spec_resolve ask' (hd nss) d (map_of (cache s))))"
    using request_spec_run [OF system_net_answers [OF h] up two ns fh fn cs] by blast
  have "fst (spec_resolve ask' (hd nss) d (map_of (cache s))) = ''Please enter a legible domain''"
    by (simp add: spec_resolve_def Let_def ask'_def split: prod.splits option.splits)
  moreover have "fst (snd (spec_resolve ask' (hd nss) d (map_of (cache s)))) d = Some ''Please enter a legible domain''"
    by (simp add: spec_resolve_def Let_def ask'_def split: prod.splits option.splits)
  ultimately show ?thesis using run c by auto
qed

lemma auth_nx_same_ns:
  "findOutTld auth_nx_oracle d ns = findOutTld demo_oracle d ns"
  "tld_handler auth_nx_oracle d ns = tld_handler demo_oracle d ns"
  by (simp_all add: findOutTld_def tld_handler_def auth_nx_oracle_def demo_oracle_def handler_simps)

lemma auth_nx_reply_fits:
  assumes r: "findOutResultantIp auth_nx_oracle ''gaia.cs.umass.edu'' ns = Inr ms" and sn: "short_addr ns"
  shows "udp_fits (py_str_list ms)"
proof (rule py_str_list_fits)
  have n: "length ns \<le> 255" using sn utf8_length_bounds(1) [of ns] by (simp add: short_addr_def)
  show "sum_list (map (\<lambda>m. 4 * length m + 4) ms) \<le> 32750"
    using r n by (auto simp: findOutResultantIp_def auth_nx_oracle_def demo_oracle_def handler_simps
        getInput_full dq_def)
qed

theorem auth_nxdomain_returned_witness:
  "\<exists>s'. localDnsServer_request (system_net auth_nx_oracle) [''198.41.0.4''] ''gaia.cs.umass.edu''
          (init_resolver all_up_state) = (Ok ''Please enter a legible domain'', s')
     \<and> map_of (cache s') ''gaia.cs.umass.edu'' = Some ''Please enter a legible domain''"
proof -
  have dm: "\<forall>t ns. short_addr ns \<longrightarrow> safe_message (demo_ask t ns) \<and> short_addr (demo_ask t ns) \<and>
      (\<exists>ms. tier_handler demo_oracle t ''gaia.cs.umass.edu'' ns = Inr (ms @ [demo_ask t ns])
         \<and> udp_fits (py_str_list (ms @ [demo_ask t ns])))"
    by (rule demo_oracle_answers) simp
  have root: "\<forall>ns. short_addr ns \<longrightarrow> safe_message (demo_ask Root ns) \<and> short_addr (demo_ask Root ns) \<and>
      (\<exists>ms. findOutTld auth_nx_oracle ''gaia.cs.umass.edu'' ns = Inr (ms @ [demo_ask Root ns])
         \<and> udp_fits (py_str_list (ms @ [demo_ask Root ns])))"
  proof (intro allI impI)
    fix ns assume "short_addr ns"
    then show "safe_message (demo_ask Root ns) \<and> short_addr (demo_ask Root ns) \<and>
      (\<exists>ms. findOutTld auth_nx_oracle ''gaia.cs.umass.edu'' ns = Inr (ms @ [demo_ask Root ns])
         \<and> udp_fits (py_str_list (ms @ [demo_ask Root ns])))"
      using dm [rule_format, where t = Root] by (simp add: auth_nx_same_ns tier_handler_def)
  qed
  have tld: "\<forall>ns. short_addr ns \<longrightarrow> safe_message (demo_ask TLD ns) \<and> short_addr (demo_ask TLD ns) \<and>
      (\<exists>ms. tld_handler auth_nx_oracle ''gaia.cs.umass.edu'' ns = Inr (ms @ [demo_ask TLD ns])
         \<and> udp_fits (py_str_list (ms @ [demo_ask TLD ns])))"
  proof (intro allI impI)
    fix ns assume "short_addr ns"
    then show "safe_message (demo_ask TLD ns) \<and> short_addr (demo_ask TLD ns) \<and>
      (\<exists>ms. tld_handler auth_nx_oracle ''gaia.cs.umass.edu'' ns = Inr (ms @ [demo_ask TLD ns])
         \<and> udp_fits (py_str_list (ms @ [demo_ask TLD ns])))"
      using dm [rule_format, where t = TLD] by (simp add: auth_nx_same_ns tier_handler_def)
  qed
  have nx: "\<forall>ns. short_addr ns \<longrightarrow>
      (\<exists>r. udp_query auth_nx_oracle (''gaia.cs.umass.edu'' @ ''.'') A ns = Some r \<and> resp_rcode r = NXDOMAIN)"
    by (simp add: auth_nx_oracle_def)
  have af: "\<forall>ns ms. short_addr ns \<longrightarrow> findOutResultantIp auth_nx_oracle ''gaia.cs.umass.edu'' ns = Inr ms
      \<longrightarrow> udp_fits (py_str_list ms)"
    using auth_nx_reply_fits by blast
  have up: "all_up (net_state (init_resolver all_up_state))"
    by (simp add: init_resolver_def all_up_state_def all_up_def)
  have two: "2 \<le> length (splitInput ''gaia.cs.umass.edu'')" by (simp add: splitInput_def)
  have f: "udp_fits (hang_message ''gaia.cs.umass.edu'')" "short_addr (hd [''198.41.0.4''])"
    by (simp_all add: fits_eval)
  have cs: "cache_short (cache (init_resolver all_up_state))" by (simp add: cache_short_def init_resolver_def)
  show ?thesis
    using auth_nxdomain_returned [OF root tld _ nx af up two _ f cs]
    by (simp add: auth_nx_oracle_def demo_oracle_def)
qed

text \<open>
  C18 (one failing root lookup stops the root server). If \<^verbatim>\<open>findOutTld\<close> raises for a
  query (the oracle fails, an empty section, a record without a target), the root
  server's \<^verbatim>\<open>except: exit()\<close> ends it without a reply: the resolver blocks on that
  query with its cache unchanged and the root server is down for good. The resolver
  itself never gets past that \<^verbatim>\<open>recvfrom\<close>; what is left of the system is a dead
  root, so the theorem's second part runs one more iteration from the state after the
  block (as a resolver restarted with the same cache would): a query whose top-level
  label is not cached blocks again at the root stage.
\<close>

theorem root_crash_hangs_later:
  assumes crash: "findOutTld orc u (hd nss) = Inl e" and up: "root_st (net_state s) = Up"
    and miss_u: "map_of (cache s) (suffix u 1) = None" and two_u: "2 \<le> length (splitInput u)"
    and ns: "nss \<noteq> []"
    and run1: "localDnsServer_request (system_net orc) nss u s = (r1, s1)"
    and miss_d: "map_of (cache s) (suffix d 1) = None" and two_d: "2 \<le> length (splitInput d)"
    and fh_u: "udp_fits (hang_message u)" and fh_d: "udp_fits (hang_message d)" and fn: "udp_fits (hd nss)"
  shows "r1 = Hang \<and> cache s1 = cache s \<and> root_st (net_state s1) = Down
         \<and> (\<exists>s2. localDnsServer_request (system_net orc) nss d s1 = (Hang, s2) \<and> cache s2 = cache s)"
proof -
  have st: "system_net orc (net_state s) Root (hd nss) u = (None, (net_state s)\<lparr>root_st := Down\<rparr>)"
    using root_step_crash [OF crash] by (simp add: system_net_Root)
  have 1: "r1 = Hang \<and> cache s1 = cache s \<and> root_st (net_state s1) = Down"
    using request_root_hang [OF miss_u _ two_u ns fh_u fn, where net = "system_net orc"] st run1 by simp
  then have "fst (system_net orc (net_state s1) Root (hd nss) d) = None"
    by (simp add: system_net_Root)
  with 1 miss_d show ?thesis
    using request_root_hang [OF _ _ two_d ns fh_d fn, where net = "system_net orc" and s = s1] by simp
qed

theorem root_crash_hangs_later_witness:
  "\<exists>s1. localDnsServer_request (system_net crash_oracle) [''198.41.0.4''] ''gaia.cs.umass.edu''
          (init_resolver all_up_state) = (Hang, s1)
     \<and> (\<exists>s2. localDnsServer_request (system_net crash_oracle) [''198.41.0.4''] ''example.com'' s1 = (Hang, s2))"
proof -
  obtain r1 s1 where run: "localDnsServer_request (system_net crash_oracle) [''198.41.0.4''] ''gaia.cs.umass.edu''
          (init_resolver all_up_state) = (r1, s1)" by fastforce
  have c: "findOutTld crash_oracle ''gaia.cs.umass.edu'' (hd [''198.41.0.4'']) = Inl DnsError"
    by (simp add: findOutTld_def crash_oracle_def demo_oracle_def handler_simps)
  show ?thesis
    using root_crash_hangs_later [OF c _ _ _ _ run, of "''example.com''"] run
    by (auto simp: init_resolver_def all_up_state_def splitInput_def fits_eval)
qed


text \<open>
  C10 (the resolver never raises on what the client sends). Every name the client's loop
  sends has passed \<^verbatim>\<open>isValid\<close>, so it holds a dot and splits into at least two
  labels. When the root name server and every query's acknowledgement fit a datagram,
  no iteration of the resolver's loop raises (the exceptions of an iteration are the
  IndexError of an empty name-server list, the ValueError of a single label and the
  OSError of a datagram too long for UDP), whatever the tiers answer, as long as the
  network delivers only datagrams and the cache holds only addresses that fit one: the
  resolver process is not killed by such a client query, though it may block.
\<close>

theorem client_session_never_raises:
  assumes ns: "nss \<noteq> []" and fn: "udp_fits (hd nss)" and nf: "net_fits net" and cf: "cache_fits (cache s)"
    and fq: "\<forall>u \<in> set (client_queries inputs). udp_fits (hang_message u)"
  shows "fst (localDnsServer_loop net nss (client_queries inputs) s) \<noteq> Raised e"
  using loop_not_raised [OF _ ns fn nf cf] client_queries_two_labels fq by blast

theorem client_session_never_raises_witness:
  "fst (localDnsServer_loop (system_net crash_oracle) [''198.41.0.4'']
     (client_queries [''GAIA.cs.umass.edu'', ''nota_domain'', ''a.b.'', ''break'', ''x.y''])
     (init_resolver all_up_state)) \<noteq> Raised ValueError"
proof -
  have q: "client_queries [''GAIA.cs.umass.edu'', ''nota_domain'', ''a.b.'', ''break'', ''x.y''] =
      [''gaia.cs.umass.edu'', ''a.b.'']"
    by (simp add: client_queries_def isValid_def re_match_prefix_def is_lower_def py_lower_def sendto_def
        fits_eval char_of_def bit_0)
  have fq: "\<forall>u \<in> set (client_queries [''GAIA.cs.umass.edu'', ''nota_domain'', ''a.b.'', ''break'', ''x.y'']).
      udp_fits (hang_message u)"
    unfolding q by (simp add: fits_eval)
  have fn: "udp_fits (hd [''198.41.0.4''])" by (simp add: fits_eval)
  have cf: "cache_fits (cache (init_resolver all_up_state))" by (simp add: cache_fits_def init_resolver_def)
  show ?thesis
    by (rule client_session_never_raises [OF _ fn system_net_fits cf fq]) simp
qed


text \<open>
  C13 (a client session runs to completion). If every tier handler answers every name
  the client sends (the dnspython oracle always answers), at every name server of at
  most 255 bytes, with a reply that fits one datagram and ends in a safe address of at
  most 255 bytes, every acknowledgement fits a datagram, the root name server and the
  cached addresses are at most 255 bytes, and the three servers are up, then the resolver
  serving every name the client's loop sends returns one address per name, and the
  servers are still up: no iteration blocks or raises. The loop over the queries is the
  measure of the run: it ends after \<open>length (client_queries inputs)\<close> iterations.
\<close>

theorem session_completes:
  assumes h: "\<forall>u \<in> set (client_queries inputs). \<forall>t ns. short_addr ns \<longrightarrow>
      (\<exists>ms a. tier_handler orc t u ns = Inr (ms @ [a]) \<and> safe_message a \<and> short_addr a
         \<and> udp_fits (py_str_list (ms @ [a])))"
    and fq: "\<forall>u \<in> set (client_queries inputs). udp_fits (hang_message u)"
    and up: "all_up (net_state s)" and ns: "nss \<noteq> []" and fn: "short_addr (hd nss)"
    and cs: "cache_short (cache s)"
  shows "\<exists>ips s'. localDnsServer_loop (system_net orc) nss (client_queries inputs) s = (Ok ips, s')
           \<and> length ips = length (client_queries inputs) \<and> all_up (net_state s')"
proof (rule loop_completes [where P = all_up and net = "system_net orc", OF _ up ns fn cs], intro ballI conjI)
  fix u assume u: "u \<in> set (client_queries inputs)"
  then show "2 \<le> length (splitInput u)" by (rule client_queries_two_labels)
  show "net_replies (system_net orc) all_up u"
    using h u by (intro system_net_replies) blast
  show "udp_fits (hang_message u)" using fq u by blast
qed

theorem session_completes_witness:
  "\<exists>ips s'. localDnsServer_loop (system_net demo_oracle) [''198.41.0.4'']
       (client_queries [''GAIA.cs.umass.edu'', ''nota_domain'', ''www.example.com'', ''break'', ''x.y''])
       (init_resolver all_up_state) = (Ok ips, s') \<and> length ips = 2"
proof -
  have q: "client_queries [''GAIA.cs.umass.edu'', ''nota_domain'', ''www.example.com'', ''break'', ''x.y''] =
      [''gaia.cs.umass.edu'', ''www.example.com'']"
    by (simp add: client_queries_def isValid_def re_match_prefix_def is_lower_def py_lower_def sendto_def
        fits_eval char_of_def bit_0)
  have h: "\<forall>u \<in> set (client_queries [''GAIA.cs.umass.edu'', ''nota_domain'', ''www.example.com'', ''break'', ''x.y'']).
      \<forall>t ns. short_addr ns \<longrightarrow> (\<exists>ms a. tier_handler demo_oracle t u ns = Inr (ms @ [a]) \<and> safe_message a
         \<and> short_addr a \<and> udp_fits (py_str_list (ms @ [a])))"
    unfolding q using demo_oracle_answers [of "''gaia.cs.umass.edu''"] demo_oracle_answers [of "''www.example.com''"]
    by simp blast
  have fq: "\<forall>u \<in> set (client_queries [''GAIA.cs.umass.edu'', ''nota_domain'', ''www.example.com'', ''break'', ''x.y'']).
      udp_fits (hang_message u)"
    unfolding q by (simp add: fits_eval)
  have up: "all_up (net_state (init_resolver all_up_state))"
    by (simp add: init_resolver_def all_up_state_def all_up_def)
  have fn: "short_addr (hd [''198.41.0.4''])" by (simp add: fits_eval)
  have cs: "cache_short (cache (init_resolver all_up_state))" by (simp add: cache_short_def init_resolver_def)
  show ?thesis
    using session_completes [OF h fq up _ fn cs] q by fastforce
qed

text \<open>
  C11 (a long query the client can send kills the resolver). A name the client's loop
  sends has passed \<^verbatim>\<open>isValid\<close> and fits in one datagram; when its acknowledgement,
  57 bytes longer, does not, the resolver serving the client's queries raises OSError at
  that query, once it has answered the earlier ones: the uncaught exception ends the
  resolver process, and with it the cache. Names of 65451 to 65507 bytes do this.
\<close>

theorem long_client_query_kills_resolver:
  assumes q: "client_queries inputs = us @ u # vs" and long: "\<not> udp_fits (hang_message u)"
    and served: "localDnsServer_loop net nss us s = (Ok ips, s1)"
  shows "isValid u \<and> udp_fits u \<and> fst (localDnsServer_loop net nss (client_queries inputs) s) = Raised OSError"
proof -
  have "u \<in> set (client_queries inputs)" using q by simp
  then have "isValid u \<and> udp_fits u" by (rule client_queries_sent)
  moreover have "localDnsServer_loop net nss (u # vs) s1 = (Raised OSError, s1)"
    using request_ack_oversized [OF long, of net nss s1] by (simp add: bind_prog_apply)
  ultimately show ?thesis
    using loop_append_ok [OF served, of "u # vs"] q by simp
qed

theorem long_client_query_kills_resolver_witness:
  "client_queries [replicate 65451 CHR ''a'' @ ''.com''] = [] @ (replicate 65451 CHR ''a'' @ ''.com'') # [] \<and>
   \<not> udp_fits (hang_message (replicate 65451 CHR ''a'' @ ''.com'')) \<and>
   fst (localDnsServer_loop (system_net demo_oracle) [''198.41.0.4''] (client_queries [replicate 65451 CHR ''a'' @ ''.com''])
     (init_resolver all_up_state)) = Raised OSError"
proof -
  let ?L = "replicate 65451 CHR ''a'' @ ''.com''"
  have lw: "map py_lower ?L = ?L" by (simp add: py_lower_def)
  have nb: "?L \<noteq> ''break''"
  proof
    assume "?L = ''break''"
    then have "length ?L = length ''break''" by (rule arg_cong)
    then show False by simp
  qed
  have "replicate (Suc 65450) CHR ''a'' = replicate 65450 CHR ''a'' @ [CHR ''a'']"
    by (simp only: replicate_Suc replicate_append_same)
  then have r: "replicate 65451 CHR ''a'' = replicate 65450 CHR ''a'' @ [CHR ''a'']" by simp
  have v: "isValid ?L"
    unfolding isValid_triple
    by (rule exI [of _ "replicate 65450 CHR ''a''"], rule exI [of _ "CHR ''a''"], rule exI [of _ "CHR ''c''"],
        rule exI [of _ "''om''"]) (simp add: is_lower_def r)
  have f: "udp_fits ?L" by (simp add: fits_eval sum_list_replicate)
  have q: "client_queries [?L] = [] @ ?L # []"
    using lw nb v f by (simp add: client_queries_def sendto_def)
  have long: "\<not> udp_fits (hang_message ?L)" by (simp add: fits_eval sum_list_replicate)
  have served: "localDnsServer_loop (system_net demo_oracle) [''198.41.0.4''] [] (init_resolver all_up_state) =
      (Ok [], init_resolver all_up_state)" by simp
  show ?thesis
    using long_client_query_kills_resolver [OF q long served] q long by simp
qed

end
